theory Spec2Isabelle
  imports Main
begin

section \<open>JavaScript values, errors and the built-ins the chain relies on\<close>

text \<open>
  The values a block field holds. \<open>body\<close> and \<open>time\<close> are the two fields whose
  JavaScript type varies: \<open>time\<close> is the number \<open>0\<close> after construction and a string after
  \<open>setTimeStamp\<close>; \<open>body\<close> is a hex string after construction, and a write from outside the
  class can store any value, of which the model keeps numbers, strings, BigInt (the
  simplest value \<open>JSON.stringify\<close> throws on) and \<open>String\<close> objects (\<open>new String(s)\<close>, a
  value that is not the string \<open>s\<close> and that \<open>JSON.stringify\<close> writes as it writes \<open>s\<close>).
  Numbers are integers, taken exactly (the doubles of JavaScript agree with them below
  \<open>2^53\<close>); a string is a list of code units below 256.
\<close>

datatype jsval = Num int | Str string | BigInt int | StringObject string

text \<open>
  Errors: the five classes of the repository carry their message; \<open>JsError name message\<close>
  is an error of the language or of a library (\<open>Error\<close>, \<open>TypeError\<close>, \<open>SyntaxError\<close>).
\<close>

datatype error =
    JsError string string
  | ValidateBlockError string
  | GetBlockDataError string
  | AddNewBlockError string
  | SubmitStarError string
  | GetStarByOwnerError string

fun error_name :: "error \<Rightarrow> string" where
  "error_name (JsError n m) = n"
| "error_name (ValidateBlockError m) = ''ValidateBlockError''"
| "error_name (GetBlockDataError m) = ''GetBlockDataError''"
| "error_name (AddNewBlockError m) = ''AddNewBlockError''"
| "error_name (SubmitStarError m) = ''SubmitStarError''"
| "error_name (GetStarByOwnerError m) = ''GetStarByOwnerError''"

fun error_message :: "error \<Rightarrow> string" where
  "error_message (JsError n m) = m"
| "error_message (ValidateBlockError m) = m"
| "error_message (GetBlockDataError m) = m"
| "error_message (AddNewBlockError m) = m"
| "error_message (SubmitStarError m) = m"
| "error_message (GetStarByOwnerError m) = m"

text \<open>\<open>Error.prototype.toString\<close>, which \<open>new ValidateBlockError(e)\<close> applies to \<open>e\<close>.\<close>

definition error_toString :: "error \<Rightarrow> string" where
  "error_toString e =
     (if error_name e = [] then error_message e
      else if error_message e = [] then error_name e
      else error_name e @ '': '' @ error_message e)"

text \<open>The constructors of the two classes that prefix their message.\<close>

definition new_SubmitStarError :: "string \<Rightarrow> error" where
  "new_SubmitStarError msg = SubmitStarError (''An error occured submitting a new star: '' @ msg)"

definition new_GetStarByOwnerError :: "string \<Rightarrow> error" where
  "new_GetStarByOwnerError msg =
     GetStarByOwnerError (''An error occured when searching stars by owner: '' @ msg)"

subsection \<open>Numbers to strings and back\<close>

text \<open>
  The digit of a value below 16, and the value of a digit: \<open>0\<close> to \<open>9\<close>, then the letters
  of either case from 10 on, as \<open>parseInt\<close> reads them.
\<close>

definition digit_char :: "nat \<Rightarrow> char" where
  "digit_char d = ''0123456789abcdef'' ! d"

definition digit_value :: "char \<Rightarrow> nat option" where
  "digit_value c =
     (let n = (of_char c :: nat)
      in if 48 \<le> n \<and> n \<le> 57 then Some (n - 48)
         else if 97 \<le> n \<and> n \<le> 122 then Some (n - 87)
         else if 65 \<le> n \<and> n \<le> 90 then Some (n - 55)
         else None)"

text \<open>\<open>Number.prototype.toString\<close> on an integer: decimal digits, \<open>-\<close> before a negative.\<close>

fun nat_toString :: "nat \<Rightarrow> string" where
  "nat_toString n =
     (if n < 10 then [digit_char n] else nat_toString (n div 10) @ [digit_char (n mod 10)])"

declare nat_toString.simps [simp del]

definition int_toString :: "int \<Rightarrow> string" where
  "int_toString i = (if i < 0 then CHR ''-'' # nat_toString (nat (- i)) else nat_toString (nat i))"

text \<open>
  \<open>parseInt(s)\<close> with no radix: leading white space is skipped, a sign is read, \<open>0x\<close> or
  \<open>0X\<close> selects base 16, then the longest run of digits is taken; with no digit the
  result is \<open>NaN\<close>, here \<open>None\<close>.
\<close>

definition is_white_space :: "char \<Rightarrow> bool" where
  "is_white_space c \<longleftrightarrow> c \<in> {CHR 0x09, CHR 0x0A, CHR 0x0B, CHR 0x0C, CHR 0x0D, CHR 0x20, CHR 0xA0}"

definition is_digit_in :: "nat \<Rightarrow> char \<Rightarrow> bool" where
  "is_digit_in radix c = (case digit_value c of None \<Rightarrow> False | Some d \<Rightarrow> d < radix)"

definition digits_value :: "nat \<Rightarrow> string \<Rightarrow> nat" where
  "digits_value radix ds = foldl (\<lambda>a c. a * radix + the (digit_value c)) 0 ds"

definition parseInt :: "string \<Rightarrow> int option" where
  "parseInt s =
     (let s1 = dropWhile is_white_space s;
          negative = (s1 \<noteq> [] \<and> hd s1 = CHR ''-'');
          s2 = (if s1 \<noteq> [] \<and> (hd s1 = CHR ''-'' \<or> hd s1 = CHR ''+'') then tl s1 else s1);
          hex = (take 2 s2 = ''0x'' \<or> take 2 s2 = ''0X'');
          radix = (if hex then 16 else 10);
          s3 = (if hex then drop 2 s2 else s2);
          ds = takeWhile (is_digit_in radix) s3
      in if ds = [] then None
         else Some (if negative then - int (digits_value radix ds) else int (digits_value radix ds)))"

text \<open>\<open>parseInt(x)\<close> where \<open>x\<close> may be \<open>undefined\<close>: the string \<open>undefined\<close> has no digit.\<close>

definition parseInt_arg :: "string option \<Rightarrow> int option" where
  "parseInt_arg x = (case x of None \<Rightarrow> None | Some s \<Rightarrow> parseInt s)"

text \<open>\<open>a - b > c\<close> on numbers that may be \<open>NaN\<close>: any comparison with \<open>NaN\<close> is false.\<close>

definition js_minus :: "int option \<Rightarrow> int option \<Rightarrow> int option" where
  "js_minus a b = (case (a, b) of (Some x, Some y) \<Rightarrow> Some (x - y) | _ \<Rightarrow> None)"

definition js_greater :: "int option \<Rightarrow> int \<Rightarrow> bool" where
  "js_greater a c = (case a of None \<Rightarrow> False | Some x \<Rightarrow> c < x)"

text \<open>\<open>s.split(":")\<close> and the read \<open>xs[i]\<close> of an array, \<open>undefined\<close> out of range.\<close>

fun split :: "char \<Rightarrow> string \<Rightarrow> string list" where
  "split sep [] = [[]]"
| "split sep (c # cs) =
     (if c = sep then [] # split sep cs
      else (case split sep cs of [] \<Rightarrow> [[c]] | w # ws \<Rightarrow> (c # w) # ws))"

definition at_index :: "'a list \<Rightarrow> int \<Rightarrow> 'a option" where
  "at_index xs i = (if 0 \<le> i \<and> i < int (length xs) then Some (xs ! nat i) else None)"

subsection \<open>\<open>JSON.stringify\<close> on the values a block holds\<close>

text \<open>
  \<open>QuoteJSONString\<close>: the two-character escapes, \<open>\u00XX\<close> for the other control
  characters, and every other code unit as it is.
\<close>

definition escape_char :: "char \<Rightarrow> string" where
  "escape_char c =
     (if c = CHR 0x08 then [CHR 0x5C, CHR ''b'']
      else if c = CHR 0x09 then [CHR 0x5C, CHR ''t'']
      else if c = CHR 0x0A then [CHR 0x5C, CHR ''n'']
      else if c = CHR 0x0C then [CHR 0x5C, CHR ''f'']
      else if c = CHR 0x0D then [CHR 0x5C, CHR ''r'']
      else if c = CHR 0x22 then [CHR 0x5C, CHR 0x22]
      else if c = CHR 0x5C then [CHR 0x5C, CHR 0x5C]
      else if (of_char c :: nat) < 32
        then [CHR 0x5C, CHR ''u'', CHR ''0'', CHR ''0'',
              digit_char (of_char c div 16), digit_char (of_char c mod 16)]
      else [c])"

definition quote :: "string \<Rightarrow> string" where
  "quote s = CHR 0x22 # concat (map escape_char s) @ [CHR 0x22]"

fun stringify_val :: "jsval \<Rightarrow> error + string" where
  "stringify_val (Num n) = Inr (int_toString n)"
| "stringify_val (Str s) = Inr (quote s)"
| "stringify_val (BigInt n) = Inl (JsError ''TypeError'' ''Do not know how to serialize a BigInt'')"
| "stringify_val (StringObject s) = Inr (quote s)"

fun stringify_nullable :: "string option \<Rightarrow> string" where
  "stringify_nullable None = ''null''"
| "stringify_nullable (Some s) = quote s"

text \<open>
  The text \<open>hex2ascii\<close> decodes: a string itself and the decimal digits of a number. For a
  value that is neither (\<open>typeof\<close> is not \<open>number\<close> or \<open>string\<close>) \<open>hex2ascii\<close> returns the
  empty string, as it does for the empty string.
\<close>

fun hex2ascii_text :: "jsval \<Rightarrow> string" where
  "hex2ascii_text (Num n) = int_toString n"
| "hex2ascii_text (Str s) = s"
| "hex2ascii_text (BigInt n) = []"
| "hex2ascii_text (StringObject s) = []"

text \<open>The numbers and the strings among the values.\<close>

fun primitive :: "jsval \<Rightarrow> bool" where
  "primitive (Num n) = True"
| "primitive (Str s) = True"
| "primitive (BigInt n) = False"
| "primitive (StringObject s) = False"

text \<open>
  The decoded payloads: what \<open>JSON.parse\<close> returns and what \<open>new Block(data)\<close> is given.
  \<open>member v k\<close> is the property read \<open>v.k\<close> on a value that is neither \<open>null\<close> nor
  \<open>undefined\<close>, for the two keys the chain reads (\<open>data\<close> and \<open>owner\<close>, which no string,
  array, number or boolean has): \<open>None\<close> is \<open>undefined\<close>. In an object with a repeated key
  the last entry counts, as in \<open>JSON.parse\<close>.
\<close>

datatype json =
    JNull | JBool bool | JNum int | JStr string | JArr "json list" | JObj "(string \<times> json) list"

fun member :: "json \<Rightarrow> string \<Rightarrow> json option" where
  "member (JObj kvs) k = map_of (rev kvs) k"
| "member v k = None"

section \<open>helpers.js\<close>

text \<open>
  \<open>getTimeStamp\<close>: \<open>new Date().getTime().toString().slice(0, -3)\<close>. The reading of the
  clock, in milliseconds, is the argument.
\<close>

definition getTimeStamp :: "int \<Rightarrow> string" where
  "getTimeStamp ms = (let s = int_toString ms in take (length s - 3) s)"

definition minuteToSeconds :: "int \<Rightarrow> int" where
  "minuteToSeconds minutes = minutes * 60"

section \<open>block.js\<close>

text \<open>
  A \<open>Block\<close>. \<open>hash\<close> and \<open>previousBlockHash\<close> are \<open>null\<close> or a string and \<open>height\<close> is an
  integer, which is what the constructor and the setters put there; \<open>body\<close> and \<open>time\<close> hold
  any value of the model, since they are the fields that are written from outside in what
  follows.
\<close>

record block =
  hash :: "string option"
  height :: int
  body :: jsval
  time :: jsval
  previousBlockHash :: "string option"

text \<open>
  The constructor. \<open>encode\<close> stands for \<open>Buffer.from(JSON.stringify(data)).toString("hex")\<close>,
  a library computation.
\<close>

definition new_Block :: "(json \<Rightarrow> string) \<Rightarrow> json \<Rightarrow> block" where
  "new_Block encode d =
     \<lparr>hash = None, height = 0, body = Str (encode d), time = Num 0, previousBlockHash = None\<rparr>"

text \<open>
  \<open>JSON.stringify(this)\<close>: the five own properties in the order the constructor creates
  them. It throws at the first value it cannot serialize. Different values may have the
  same text: a string and its \<open>String\<close> object do.
\<close>

definition JSON_stringify :: "block \<Rightarrow> error + string" where
  \<open>JSON_stringify b =
     (case stringify_val (body b) of
        Inl e \<Rightarrow> Inl e
      | Inr body_json \<Rightarrow>
          (case stringify_val (time b) of
             Inl e \<Rightarrow> Inl e
           | Inr time_json \<Rightarrow>
               Inr (''{"hash":'' @ stringify_nullable (hash b)
                    @ '',"height":'' @ int_toString (block.height b)
                    @ '',"body":'' @ body_json
                    @ '',"time":'' @ time_json
                    @ '',"previousBlockHash":'' @ stringify_nullable (previousBlockHash b)
                    @ ''}'')))\<close>

text \<open>
  \<open>_hashBlock\<close>: \<open>SHA256(JSON.stringify(this)).toString()\<close>. The digest \<open>SHA256\<close> is a
  parameter of the model.
\<close>

definition hashBlock :: "(string \<Rightarrow> string) \<Rightarrow> block \<Rightarrow> error + string" where
  "hashBlock SHA256 b = (case JSON_stringify b of Inl e \<Rightarrow> Inl e | Inr s \<Rightarrow> Inr (SHA256 s))"

text \<open>
  \<open>validate\<close>: the result of the promise and the block as the call leaves it. When
  \<open>_hashBlock\<close> throws, the \<open>catch\<close> rejects and the assignment that puts the hash back
  has not run.
\<close>

definition validate :: "(string \<Rightarrow> string) \<Rightarrow> block \<Rightarrow> (error + bool) \<times> block" where
  "validate SHA256 self =
     (let currentHash = hash self;
          self1 = self\<lparr>hash := None\<rparr>
      in case hashBlock SHA256 self1 of
           Inl e \<Rightarrow> (Inl (ValidateBlockError (error_toString e)), self1)
         | Inr newHash \<Rightarrow> (Inr (currentHash = Some newHash), self1\<lparr>hash := currentHash\<rparr>))"

text \<open>
  \<open>getBData\<close>: \<open>decode\<close> stands for \<open>JSON.parse(hex2ascii(body))\<close> as a function of the
  text of a body that is a number or a string. For any other body \<open>hex2ascii\<close> returns the
  empty string, on which \<open>JSON.parse\<close> throws a \<open>SyntaxError\<close>. After the rejection for the
  genesis block the function goes on, and nothing it does then changes the promise, which
  is settled.
\<close>

definition getBData :: "(string \<Rightarrow> error + json) \<Rightarrow> block \<Rightarrow> error + json" where
  "getBData decode self =
     (if previousBlockHash self = None \<or> block.height self = 0
      then Inl (GetBlockDataError ''This is Genesis Block!'')
      else if \<not> primitive (body self)
      then Inl (GetBlockDataError
                  (error_toString (JsError ''SyntaxError'' ''Unexpected end of JSON input'')))
      else (case decode (hex2ascii_text (body self)) of
              Inl e \<Rightarrow> Inl (GetBlockDataError (error_toString e))
            | Inr parsed \<Rightarrow> Inr parsed))"

definition setHeight :: "int \<Rightarrow> block \<Rightarrow> error + block" where
  "setHeight h self =
     (if h < 0 then Inl (JsError ''Error'' ''Height cannot be less then zero'')
      else Inr (self\<lparr>block.height := h\<rparr>))"

definition setPreviousHash :: "string option \<Rightarrow> block \<Rightarrow> block" where
  "setPreviousHash h self = (if h \<noteq> None then self\<lparr>previousBlockHash := h\<rparr> else self)"

definition setTimeStamp :: "int \<Rightarrow> block \<Rightarrow> block" where
  "setTimeStamp ms self = self\<lparr>time := Str (getTimeStamp ms)\<rparr>"

definition setHash :: "(string \<Rightarrow> string) \<Rightarrow> block \<Rightarrow> error + block" where
  "setHash SHA256 self =
     (case hashBlock SHA256 self of Inl e \<Rightarrow> Inl e | Inr h \<Rightarrow> Inr (self\<lparr>hash := Some h\<rparr>))"

section \<open>blockchain.js\<close>

text \<open>
  The file holds the class twice. The model follows the first text, the one whose
  \<open>_addBlock\<close> validates the chain and whose \<open>validateChain\<close> has a body; in the second
  \<open>validateChain\<close> returns a promise that is never settled and \<open>_addBlock\<close> does not call
  it.
\<close>

text \<open>
  \<open>ValidationErrorLog\<close>: a message and the data of the offending block, which for a
  broken link also hold the predecessor's hash as the block declares it and as the chain
  has it.
\<close>

datatype log_data =
    BlockData "string option" int
  | LinkData "string option" int "string option" "string option"

datatype ValidationErrorLog = ValidationErrorLog string log_data

text \<open>
  The state of a \<open>Blockchain\<close>. \<open>validateChain\<close>, \<open>_addBlock\<close>, \<open>submitStar\<close> and
  \<open>getStarsByWalletAddress\<close> below take the state and return the state they leave, next to
  the value or the error their promise is settled with: they describe a call that is
  awaited, with nothing else started on the chain before its promise is settled. The calls
  that are not awaited (the constructor's, and appends started together) are described
  further down, continuation by continuation.
\<close>

record blockchain =
  chain :: "block list"
  height :: int
  limitTime :: int


text \<open>
  The loop of \<open>validateChain\<close>, from index \<open>i\<close>: the array of blocks (which \<open>validate\<close>
  may change), the log, and the error of the first \<open>reject\<close> (a later one does not change
  a promise that is settled). A rejection of \<open>block.validate()\<close> leaves the \<open>try\<close>, so
  neither check of that block is logged, and the loop goes on with the next index.
  \<open>block.previousBlockHash &&\<close> is false for \<open>null\<close> and for the empty string.
\<close>

function validateChain_loop ::
  "(string \<Rightarrow> string) \<Rightarrow> block list \<Rightarrow> nat \<Rightarrow> ValidationErrorLog list \<Rightarrow> error option
     \<Rightarrow> block list \<times> ValidationErrorLog list \<times> error option" where
  "validateChain_loop SHA256 ch i errorLog rejected =
     (if i < length ch then
        (let previousBlock = at_index ch (int i - 1) in
         case validate SHA256 (ch ! i) of
           (Inl e, block) \<Rightarrow>
             validateChain_loop SHA256 (ch[i := block]) (Suc i) errorLog
               (if rejected = None then Some e else rejected)
         | (Inr blockIsNotTampered, block) \<Rightarrow>
             (let errorLog1 =
                    (if \<not> blockIsNotTampered
                     then errorLog @ [ValidationErrorLog ''Block is not valid''
                                        (BlockData (hash block) (block.height block))]
                     else errorLog);
                  errorLog2 =
                    (if previousBlockHash block \<noteq> None \<and> previousBlockHash block \<noteq> Some []
                        \<and> previousBlock \<noteq> None
                        \<and> previousBlockHash block \<noteq> hash (the previousBlock)
                     then errorLog1 @ [ValidationErrorLog ''Block is wrongly linked''
                                         (LinkData (hash block) (block.height block)
                                            (previousBlockHash block) (hash (the previousBlock)))]
                     else errorLog1)
              in validateChain_loop SHA256 (ch[i := block]) (Suc i) errorLog2 rejected))
      else (ch, errorLog, rejected))"
  by pat_completeness auto
termination
  by (relation "measure (\<lambda>(SHA256, ch, i, errorLog, rejected). length ch - i)") auto

declare validateChain_loop.simps [simp del]

text \<open>
  \<open>validateChain\<close>: the promise (rejected with the first error, or else resolved with the
  log) and the chain as the call leaves it.
\<close>

definition validateChain ::
  "(string \<Rightarrow> string) \<Rightarrow> blockchain \<Rightarrow> (error + ValidationErrorLog list) \<times> blockchain" where
  "validateChain SHA256 self =
     (case validateChain_loop SHA256 (chain self) 0 [] None of
        (ch, errorLog, rejected) \<Rightarrow>
          ((case rejected of Some e \<Rightarrow> Inl e | None \<Rightarrow> Inr errorLog), self\<lparr>chain := ch\<rparr>))"

text \<open>
  \<open>_addBlock\<close>: the candidate is sealed, \<open>validateChain\<close> runs on the chain as it is (the
  candidate is pushed only afterwards), and every error is wrapped in an
  \<open>AddNewBlockError\<close> with the same message. \<open>ms\<close> is the reading of the clock.
  Blocks are values here: the candidate is an object of its own, as the blocks that
  \<open>submitStar\<close> and \<open>initializeChain\<close> make are, and not one of the objects the chain
  already holds. What the setters do to a candidate that is then rejected is not part of
  the result.
\<close>

definition addBlock ::
  "(string \<Rightarrow> string) \<Rightarrow> int \<Rightarrow> blockchain \<Rightarrow> block \<Rightarrow> (error + block) \<times> blockchain" where
  "addBlock SHA256 ms self block =
     (let chainLength = int (length (chain self));
          previousBlock = at_index (chain self) (chainLength - 1);
          block1 = setPreviousHash (case previousBlock of Some p \<Rightarrow> hash p | None \<Rightarrow> None) block;
          block2 = setTimeStamp ms block1
      in case setHeight chainLength block2 of
           Inl e \<Rightarrow> (Inl (AddNewBlockError (error_message e)), self)
         | Inr block3 \<Rightarrow>
             (case setHash SHA256 block3 of
                Inl e \<Rightarrow> (Inl (AddNewBlockError (error_message e)), self)
              | Inr block4 \<Rightarrow>
                  (case validateChain SHA256 self of
                     (Inl e, self1) \<Rightarrow> (Inl (AddNewBlockError (error_message e)), self1)
                   | (Inr errors, self1) \<Rightarrow>
                       if errors \<noteq> []
                       then (Inl (AddNewBlockError ''Chain is invalid!''), self1)
                       else (Inr block4,
                             self1\<lparr>chain := chain self1 @ [block4],
                                   blockchain.height := blockchain.height self1 + 1\<rparr>))))"

text \<open>
  The same code, continuation by continuation. An \<open>await\<close> ends the running piece of code
  and puts what follows it into the queue of continuations, which run one after another in
  the order in which they were queued (every promise awaited here is settled when it is
  awaited, or is settled by a piece of code of this file). Two kinds of continuation
  occur: \<open>validateChain\<close> after \<open>await block.validate()\<close> at index \<open>i\<close>, with the outcome of
  \<open>validate\<close>, the log so far and whether the promise of \<open>validateChain\<close> is rejected already;
  and \<open>_addBlock\<close> after \<open>await self.validateChain()\<close>, with the outcome of \<open>validateChain\<close>.
  Both carry the sealed candidate of the \<open>_addBlock\<close> they belong to.
\<close>

datatype continuation =
    Resume_validateChain nat "error + bool" "ValidationErrorLog list" bool block
  | Resume_addBlock block "error + ValidationErrorLog list"

text \<open>
  A run: the chain, the queue, and the outcomes of the calls of \<open>_addBlock\<close> settled so
  far, in the order in which they were settled.
\<close>

type_synonym run = "blockchain \<times> continuation list \<times> (error + block) list"

text \<open>
  \<open>validateChain\<close> from the test of the loop at index \<open>i\<close> to the next \<open>await\<close> or to the
  end of the loop: \<open>block.validate()\<close> has run when the \<open>await\<close> is reached, and at the end
  \<open>resolve(errorLog)\<close> lets \<open>_addBlock\<close> go on unless the promise is rejected already.
\<close>

definition validateChain_next ::
  "(string \<Rightarrow> string) \<Rightarrow> blockchain \<Rightarrow> nat \<Rightarrow> ValidationErrorLog list \<Rightarrow> bool \<Rightarrow> block
     \<Rightarrow> blockchain \<times> continuation list" where
  "validateChain_next SHA256 self i errorLog rejected candidate =
     (if i < length (chain self) then
        (case validate SHA256 (chain self ! i) of
           (r, block) \<Rightarrow>
             (self\<lparr>chain := (chain self)[i := block]\<rparr>,
              [Resume_validateChain i r errorLog rejected candidate]))
      else (self, if rejected then [] else [Resume_addBlock candidate (Inr errorLog)]))"

text \<open>
  One continuation: the chain it leaves, the continuations it queues and the calls of
  \<open>_addBlock\<close> it settles. The blocks that \<open>validateChain\<close> holds in \<open>block\<close> and
  \<open>previousBlock\<close> are the objects at the indices \<open>i\<close> and \<open>i - 1\<close> of the array, which only
  ever grows at its end.
\<close>

definition resume ::
  "(string \<Rightarrow> string) \<Rightarrow> blockchain \<Rightarrow> continuation \<Rightarrow> blockchain \<times> continuation list \<times> (error + block) list" where
  "resume SHA256 self t =
     (case t of
        Resume_validateChain i r errorLog rejected candidate \<Rightarrow>
          (case r of
             Inl e \<Rightarrow>
               (case validateChain_next SHA256 self (Suc i) errorLog True candidate of
                  (self1, ts) \<Rightarrow>
                    (self1, (if rejected then [] else [Resume_addBlock candidate (Inl e)]) @ ts, []))
           | Inr blockIsNotTampered \<Rightarrow>
               (let block = chain self ! i;
                    previousBlock = at_index (chain self) (int i - 1);
                    errorLog1 =
                      (if \<not> blockIsNotTampered
                       then errorLog @ [ValidationErrorLog ''Block is not valid''
                                          (BlockData (hash block) (block.height block))]
                       else errorLog);
                    errorLog2 =
                      (if previousBlockHash block \<noteq> None \<and> previousBlockHash block \<noteq> Some []
                          \<and> previousBlock \<noteq> None
                          \<and> previousBlockHash block \<noteq> hash (the previousBlock)
                       then errorLog1 @ [ValidationErrorLog ''Block is wrongly linked''
                                           (LinkData (hash block) (block.height block)
                                              (previousBlockHash block) (hash (the previousBlock)))]
                       else errorLog1)
                in case validateChain_next SHA256 self (Suc i) errorLog2 rejected candidate of
                     (self1, ts) \<Rightarrow> (self1, ts, [])))
      | Resume_addBlock candidate r \<Rightarrow>
          (case r of
             Inl e \<Rightarrow> (self, [], [Inl (AddNewBlockError (error_message e))])
           | Inr errors \<Rightarrow>
               if errors \<noteq> []
               then (self, [], [Inl (AddNewBlockError ''Chain is invalid!'')])
               else (self\<lparr>chain := chain self @ [candidate],
                          blockchain.height := blockchain.height self + 1\<rparr>,
                     [], [Inr candidate])))"

text \<open>
  \<open>_addBlock\<close> up to its \<open>await\<close>: the length of the chain and the last block are read and
  the candidate is sealed now; the push comes in the continuation.
\<close>

definition addBlock_start ::
  "(string \<Rightarrow> string) \<Rightarrow> int \<Rightarrow> blockchain \<Rightarrow> block
     \<Rightarrow> blockchain \<times> continuation list \<times> (error + block) list" where
  "addBlock_start SHA256 ms self block =
     (let chainLength = int (length (chain self));
          previousBlock = at_index (chain self) (chainLength - 1);
          block1 = setPreviousHash (case previousBlock of Some p \<Rightarrow> hash p | None \<Rightarrow> None) block;
          block2 = setTimeStamp ms block1
      in case setHeight chainLength block2 of
           Inl e \<Rightarrow> (self, [], [Inl (AddNewBlockError (error_message e))])
         | Inr block3 \<Rightarrow>
             (case setHash SHA256 block3 of
                Inl e \<Rightarrow> (self, [], [Inl (AddNewBlockError (error_message e))])
              | Inr block4 \<Rightarrow>
                  (case validateChain_next SHA256 self 0 [] False block4 of
                     (self1, ts) \<Rightarrow> (self1, ts, []))))"

text \<open>
  A call of \<open>_addBlock\<close> made in a run, whatever is in the queue, and the run of the queue
  until it is empty (\<open>None\<close> if that never happens).
\<close>

definition call_addBlock :: "(string \<Rightarrow> string) \<Rightarrow> int \<Rightarrow> block \<Rightarrow> run \<Rightarrow> run" where
  "call_addBlock SHA256 ms block st =
     (case st of
        (self, queue, settled) \<Rightarrow>
          (case addBlock_start SHA256 ms self block of
             (self1, ts, rs) \<Rightarrow> (self1, queue @ ts, settled @ rs)))"

partial_function (option) run_queue :: "(string \<Rightarrow> string) \<Rightarrow> run \<Rightarrow> run option" where
  "run_queue SHA256 st =
     (case st of
        (self, [], settled) \<Rightarrow> Some st
      | (self, t # queue, settled) \<Rightarrow>
          (case resume SHA256 self t of
             (self1, ts, rs) \<Rightarrow> run_queue SHA256 (self1, queue @ ts, settled @ rs)))"

declare run_queue.simps [code]

text \<open>
  The constructor and \<open>initializeChain\<close>. The constructor does not wait for the promise of
  \<open>initializeChain\<close>: it returns the chain empty and with height \<open>-1\<close>, the append of the
  genesis block started and its continuation in the queue.
\<close>

definition initializeChain ::
  "(string \<Rightarrow> string) \<Rightarrow> (json \<Rightarrow> string) \<Rightarrow> int \<Rightarrow> blockchain \<Rightarrow> run" where
  "initializeChain SHA256 encode ms self =
     (if blockchain.height self = - 1
      then addBlock_start SHA256 ms self
             (new_Block encode (JObj [(''data'', JStr ''Genesis Block'')]))
      else (self, [], []))"

definition new_Blockchain :: "(string \<Rightarrow> string) \<Rightarrow> (json \<Rightarrow> string) \<Rightarrow> int \<Rightarrow> run" where
  "new_Blockchain SHA256 encode ms =
     initializeChain SHA256 encode ms
       \<lparr>chain = [], height = - 1, limitTime = minuteToSeconds 5\<rparr>"

definition requestMessageOwnershipVerification :: "int \<Rightarrow> string \<Rightarrow> string" where
  "requestMessageOwnershipVerification ms address =
     address @ '':'' @ getTimeStamp ms @ '':starRegistry''"

text \<open>
  \<open>submitStar\<close>. \<open>verify\<close> stands for \<open>bitcoinMessage.verify\<close>, which returns a boolean or
  throws; \<open>ms\<close> is the clock when the elapsed time is checked and \<open>ms'\<close> when the block is
  stamped. The \<open>catch\<close> passes a \<open>SubmitStarError\<close> on and wraps the message of any other
  error in one.
\<close>

definition rewrap :: "error \<Rightarrow> error" where
  "rewrap e = (case e of SubmitStarError m \<Rightarrow> e | _ \<Rightarrow> new_SubmitStarError (error_message e))"

definition submitStar ::
  "(string \<Rightarrow> string) \<Rightarrow> (string \<Rightarrow> string \<Rightarrow> string \<Rightarrow> error + bool) \<Rightarrow> (json \<Rightarrow> string)
     \<Rightarrow> int \<Rightarrow> int \<Rightarrow> blockchain \<Rightarrow> string \<Rightarrow> string \<Rightarrow> string \<Rightarrow> json
     \<Rightarrow> (error + block) \<times> blockchain" where
  "submitStar SHA256 verify encode ms ms' self address message signature star =
     (let messageTime = parseInt_arg (at_index (split CHR '':'' message) 1);
          currentTime = parseInt (getTimeStamp ms)
      in if js_greater (js_minus currentTime messageTime) (limitTime self)
         then (Inl (new_SubmitStarError
                      ''Too much time passed between request validation and submit''), self)
         else (case verify message address signature of
                 Inl e \<Rightarrow> (Inl (rewrap e), self)
               | Inr verified \<Rightarrow>
                   if \<not> verified
                   then (Inl (new_SubmitStarError ''Validation for your message failed!''), self)
                   else (let newBlock =
                               new_Block encode
                                 (JObj [(''data'', JObj [(''owner'', JStr address), (''star'', star)])])
                         in case addBlock SHA256 ms' self newBlock of
                              (Inl e, self1) \<Rightarrow> (Inl (rewrap e), self1)
                            | (Inr block, self1) \<Rightarrow> (Inr block, self1))))"

text \<open>
  \<open>getStarsByWalletAddress\<close>: the loop over \<open>chain.slice(1)\<close>. Destructuring \<open>null\<close> and
  reading \<open>owner\<close> of \<open>undefined\<close> or \<open>null\<close> throw a \<open>TypeError\<close>; \<open>===\<close> holds for a string
  equal to the address only. The \<open>catch\<close> around the loop wraps the message of the first
  error.
\<close>

fun stars_loop ::
  "(string \<Rightarrow> error + json) \<Rightarrow> string \<Rightarrow> block list \<Rightarrow> json list \<Rightarrow> error + json list" where
  "stars_loop decode address [] stars = Inr stars"
| "stars_loop decode address (block # rest) stars =
     (case getBData decode block of
        Inl e \<Rightarrow> Inl e
      | Inr JNull \<Rightarrow>
          Inl (JsError ''TypeError''
                 ''Cannot destructure property 'data' of '(intermediate value)' as it is null.'')
      | Inr parsed \<Rightarrow>
          (case member parsed ''data'' of
             None \<Rightarrow>
               Inl (JsError ''TypeError'' ''Cannot read properties of undefined (reading 'owner')'')
           | Some JNull \<Rightarrow>
               Inl (JsError ''TypeError'' ''Cannot read properties of null (reading 'owner')'')
           | Some d \<Rightarrow>
               if member d ''owner'' = Some (JStr address)
               then stars_loop decode address rest (stars @ [d])
               else stars_loop decode address rest stars))"

definition getStarsByWalletAddress ::
  "(string \<Rightarrow> error + json) \<Rightarrow> blockchain \<Rightarrow> string \<Rightarrow> error + json list" where
  "getStarsByWalletAddress decode self address =
     (let chainWithoutGenesisBlock = drop 1 (chain self)
      in case stars_loop decode address chainWithoutGenesisBlock [] of
           Inl e \<Rightarrow> Inl (new_GetStarByOwnerError (error_message e))
         | Inr stars \<Rightarrow> Inr stars)"

section \<open>Auxiliary definitions for the proofs\<close>

text \<open>What may follow a number in a serialization: nothing, or a character that is no decimal digit.\<close>

definition not_digit_next :: "string \<Rightarrow> bool" where
  "not_digit_next r \<longleftrightarrow> r = [] \<or> \<not> is_digit_in 10 (hd r)"

text \<open>A digest that is injective everywhere, for the concrete instances: it returns its input.\<close>

definition plain_digest :: "string \<Rightarrow> string" where
  "plain_digest s = s"

text \<open>
  Stand-ins for the library functions, for the concrete instances: an encoder that returns
  the same hex string for every payload, a signature check with a fixed answer, and a decoder
  that knows one payload and fails on every other string.
\<close>

definition encode_stub :: "json \<Rightarrow> string" where
  "encode_stub d = ''7b7d''"

definition verify_stub :: "bool \<Rightarrow> string \<Rightarrow> string \<Rightarrow> string \<Rightarrow> error + bool" where
  "verify_stub answer message address signature = Inr answer"

definition decode_stub :: "string \<Rightarrow> error + json" where
  "decode_stub s =
     (if s = ''7b7d'' then Inr (JObj [(''data'', JObj [(''owner'', JStr ''addr'')])])
      else Inl (JsError ''SyntaxError'' ''Unexpected end of JSON input''))"

text \<open>
  The chain of a new \<open>Blockchain\<close> once the append of the genesis block has settled, with
  nothing else started in between.
\<close>

definition genesis_chain :: "(string \<Rightarrow> string) \<Rightarrow> (json \<Rightarrow> string) \<Rightarrow> int \<Rightarrow> blockchain" where
  "genesis_chain SHA256 encode ms =
     (case run_queue SHA256 (new_Blockchain SHA256 encode ms) of
        Some st \<Rightarrow> fst st
      | None \<Rightarrow> fst (new_Blockchain SHA256 encode ms))"

text \<open>
  A sequence of calls of \<open>_addBlock\<close>, each with the reading of the clock and the
  candidate block, each awaited before the next is made, all of which resolve: the chain
  afterwards, or \<open>None\<close> when one of them rejects.
\<close>

fun appends :: "(string \<Rightarrow> string) \<Rightarrow> blockchain \<Rightarrow> (int \<times> block) list \<Rightarrow> blockchain option" where
  "appends SHA256 self [] = Some self"
| "appends SHA256 self ((ms, block) # rest) =
     (case addBlock SHA256 ms self block of
        (Inl e, self1) \<Rightarrow> None
      | (Inr b, self1) \<Rightarrow> appends SHA256 self1 rest)"

text \<open>
  What one round of the loop of \<open>validateChain\<close> adds to the log for the block at index
  \<open>i\<close>, given the answer of \<open>validate\<close>; and what a call of \<open>_addBlock\<close> makes of the
  outcome of the loop.
\<close>

definition issues_at :: "block list \<Rightarrow> nat \<Rightarrow> bool \<Rightarrow> ValidationErrorLog list" where
  "issues_at ch i ok =
     (if ok then [] else [ValidationErrorLog ''Block is not valid''
                            (BlockData (hash (ch ! i)) (block.height (ch ! i)))])
     @ (if previousBlockHash (ch ! i) \<noteq> None \<and> previousBlockHash (ch ! i) \<noteq> Some []
           \<and> 0 < i \<and> previousBlockHash (ch ! i) \<noteq> hash (ch ! (i - 1))
        then [ValidationErrorLog ''Block is wrongly linked''
                (LinkData (hash (ch ! i)) (block.height (ch ! i))
                   (previousBlockHash (ch ! i)) (hash (ch ! (i - 1))))]
        else [])"

definition addBlock_outcome :: "blockchain \<Rightarrow> block \<Rightarrow> (error + block) list
    \<Rightarrow> block list \<times> ValidationErrorLog list \<times> error option \<Rightarrow> run" where
  "addBlock_outcome self cand rs l =
     (case l of
        (ch, lg, Some e) \<Rightarrow> (self\<lparr>chain := ch\<rparr>, [], rs @ [Inl (AddNewBlockError (error_message e))])
      | (ch, lg, None) \<Rightarrow>
          if lg \<noteq> [] then (self\<lparr>chain := ch\<rparr>, [], rs @ [Inl (AddNewBlockError ''Chain is invalid!'')])
          else (self\<lparr>chain := ch @ [cand], blockchain.height := blockchain.height self + 1\<rparr>,
                [], rs @ [Inr cand]))"

text \<open>
  A block whose hash is the digest of its serialization with \<open>hash\<close> cleared, and a
  chain in which every block has a hash, its index as height, and its predecessor's hash as
  \<open>previousBlockHash\<close>.
\<close>

definition sealed_by :: "(string \<Rightarrow> string) \<Rightarrow> block \<Rightarrow> bool" where
  "sealed_by SHA256 b \<longleftrightarrow>
     (case JSON_stringify (b\<lparr>hash := None\<rparr>) of Inl e \<Rightarrow> False | Inr s \<Rightarrow> hash b = Some (SHA256 s))"

definition linked :: "block list \<Rightarrow> bool" where
  "linked ch \<longleftrightarrow>
     (\<forall>i < length ch. hash (ch ! i) \<noteq> None \<and> block.height (ch ! i) = int i
        \<and> (0 < i \<longrightarrow> previousBlockHash (ch ! i) = hash (ch ! (i - 1))))"

text \<open>
  The genesis block as the constructor seals it.
\<close>

definition genesis_block :: "(string \<Rightarrow> string) \<Rightarrow> (json \<Rightarrow> string) \<Rightarrow> int \<Rightarrow> block" where
  "genesis_block H enc ms =
     (let b = \<lparr>hash = None, height = 0, body = Str (enc (JObj [(''data'', JStr ''Genesis Block'')])),
               time = Str (getTimeStamp ms), previousBlockHash = None\<rparr>
      in b\<lparr>hash := Some (H (projr (JSON_stringify b)))\<rparr>)"

text \<open>
  The error with which \<open>validate\<close> rejects.
\<close>

definition cannot_serialize :: error where
  "cannot_serialize = ValidateBlockError ''TypeError: Do not know how to serialize a BigInt''"

text \<open>
  Concrete instances: the chain with the genesis block and one appended new block, the
  chain with the genesis block and one appended block whose \<open>hash\<close> was set beforehand, the
  first of these chains with the payload of block 1 replaced by a BigInt, and a new block
  sealed the way \<open>_addBlock\<close> seals it. Then two runs in which an append is not awaited:
  \<open>_addBlock\<close> called on a new \<open>Blockchain\<close> right after the constructor, and \<open>_addBlock\<close>
  called twice in a row on the chain that holds the genesis block; and the chain of the
  second run with the payload of block 1 replaced.
\<close>

definition sample_chain :: blockchain where
  "sample_chain =
     the (appends plain_digest (genesis_chain plain_digest encode_stub 1000)
            [(2000, new_Block encode_stub JNull)])"

definition presealed_chain :: blockchain where
  "presealed_chain =
     the (appends plain_digest (genesis_chain plain_digest encode_stub 1000)
            [(2000, (new_Block encode_stub JNull)\<lparr>hash := Some ''ab''\<rparr>)])"

definition corrupted_chain :: blockchain where
  "corrupted_chain =
     sample_chain\<lparr>chain := (chain sample_chain)[1 := (chain sample_chain ! 1)\<lparr>body := BigInt 3\<rparr>]\<rparr>"

definition early_append :: run where
  "early_append =
     the (run_queue plain_digest
            (call_addBlock plain_digest 2000 (new_Block encode_stub JNull)
               (new_Blockchain plain_digest encode_stub 1000)))"

definition joint_appends :: run where
  "joint_appends =
     the (run_queue plain_digest
            (call_addBlock plain_digest 3000 (new_Block encode_stub JNull)
               (call_addBlock plain_digest 2000 (new_Block encode_stub JNull)
                  (genesis_chain plain_digest encode_stub 1000, [], []))))"

definition joint_tampered :: blockchain where
  "joint_tampered =
     (fst joint_appends)\<lparr>chain :=
        (chain (fst joint_appends))[1 := (chain (fst joint_appends) ! 1)\<lparr>body := Str ''00''\<rparr>]\<rparr>"

definition sample_block :: block where
  "sample_block =
     projr (setHash plain_digest
       (projr (setHeight 1 (setTimeStamp 2000 (setPreviousHash (Some ''cd'')
          (new_Block encode_stub JNull))))))"

section \<open>The text of a serialization determines the text of each field\<close>

lemma digit_value_digit_char: "d < 16 \<Longrightarrow> digit_value (digit_char d) = Some d"
proof -
  assume "d < 16"
  then have "d = 0 \<or> d = 1 \<or> d = 2 \<or> d = 3 \<or> d = 4 \<or> d = 5 \<or> d = 6 \<or> d = 7 \<or> d = 8
      \<or> d = 9 \<or> d = 10 \<or> d = 11 \<or> d = 12 \<or> d = 13 \<or> d = 14 \<or> d = 15" by arith
  then show ?thesis by (elim disjE) (simp_all add: digit_char_def digit_value_def)
qed

lemma is_digit_digit_char: "d < 10 \<Longrightarrow> is_digit_in 10 (digit_char d)"
  by (simp add: is_digit_in_def digit_value_digit_char)

lemma nat_toString_digits: "\<forall>c \<in> set (nat_toString n). is_digit_in 10 c"
proof (induction n rule: nat_toString.induct)
  case (1 n)
  show ?case
  proof (cases "n < 10")
    case True
    then show ?thesis by (subst nat_toString.simps) (simp add: is_digit_digit_char)
  next
    case False
    with 1 show ?thesis by (subst nat_toString.simps) (simp add: is_digit_digit_char)
  qed
qed

lemma nat_toString_nonempty: "nat_toString n \<noteq> []"
  by (subst nat_toString.simps) simp

lemma digits_value_snoc:
  "digits_value r (ds @ [c]) = digits_value r ds * r + the (digit_value c)"
  by (simp add: digits_value_def)

lemma digits_value_nat_toString: "digits_value 10 (nat_toString n) = n"
proof (induction n rule: nat_toString.induct)
  case (1 n)
  show ?case
  proof (cases "n < 10")
    case True
    then show ?thesis
      by (subst nat_toString.simps) (simp add: digits_value_def digit_value_digit_char)
  next
    case False
    then have "digits_value 10 (nat_toString (n div 10)) = n div 10" using 1 by simp
    with False show ?thesis
      by (subst nat_toString.simps) (simp add: digits_value_snoc digit_value_digit_char)
  qed
qed


lemma takeWhile_digits_append:
  assumes "\<forall>c \<in> set ds. P c" and "r = [] \<or> \<not> P (hd r)"
  shows "takeWhile P (ds @ r) = ds"
  using assms by (cases r) (simp_all add: takeWhile_append2)

lemma nat_toString_cont_inj:
  assumes "nat_toString a @ r = nat_toString b @ r'"
    and "r = [] \<or> \<not> is_digit_in 10 (hd r)" and "r' = [] \<or> \<not> is_digit_in 10 (hd r')"
  shows "a = b \<and> r = r'"
proof -
  have "takeWhile (is_digit_in 10) (nat_toString a @ r) = nat_toString a"
    using assms(2) nat_toString_digits by (intro takeWhile_digits_append) auto
  moreover have "takeWhile (is_digit_in 10) (nat_toString b @ r') = nat_toString b"
    using assms(3) nat_toString_digits by (intro takeWhile_digits_append) auto
  ultimately have eq: "nat_toString a = nat_toString b" using assms(1) by simp
  then have "digits_value 10 (nat_toString a) = digits_value 10 (nat_toString b)" by simp
  then have "a = b" by (simp add: digits_value_nat_toString)
  with eq assms(1) show ?thesis by simp
qed

lemma not_digit_minus: "\<not> is_digit_in 10 CHR ''-''"
  by (simp add: is_digit_in_def digit_value_def)

lemma hd_nat_toString_digit: "is_digit_in 10 (hd (nat_toString n @ r))"
  using nat_toString_digits [of n] nat_toString_nonempty [of n]
  by (cases "nat_toString n") auto

lemma int_toString_cont_inj:
  assumes "int_toString a @ r = int_toString b @ r'"
    and "r = [] \<or> \<not> is_digit_in 10 (hd r)" and "r' = [] \<or> \<not> is_digit_in 10 (hd r')"
  shows "a = b \<and> r = r'"
proof (cases "a < 0")
  case na: True
  show ?thesis
  proof (cases "b < 0")
    case True
    with na assms(1) have "nat_toString (nat (- a)) @ r = nat_toString (nat (- b)) @ r'"
      by (simp add: int_toString_def)
    from nat_toString_cont_inj [OF this assms(2,3)] na True show ?thesis by auto
  next
    case False
    with na assms(1) have "CHR ''-'' = hd (nat_toString (nat b) @ r')"
      by (simp add: int_toString_def; metis list.sel(1))
    with hd_nat_toString_digit [of "nat b" r'] not_digit_minus show ?thesis by simp
  qed
next
  case pa: False
  show ?thesis
  proof (cases "b < 0")
    case True
    with pa assms(1) have "CHR ''-'' = hd (nat_toString (nat a) @ r)"
      by (simp add: int_toString_def)
    with hd_nat_toString_digit [of "nat a" r] not_digit_minus show ?thesis by simp
  next
    case False
    with pa assms(1) have "nat_toString (nat a) @ r = nat_toString (nat b) @ r'"
      by (simp add: int_toString_def)
    from nat_toString_cont_inj [OF this assms(2,3)] pa False show ?thesis by auto
  qed
qed

lemma hd_int_toString: "hd (int_toString a @ r) = CHR ''-'' \<or> is_digit_in 10 (hd (int_toString a @ r))"
  using hd_nat_toString_digit by (simp add: int_toString_def)

lemma of_char_div_mod_eq:
  assumes "(of_char c :: nat) div 16 = of_char c' div 16" and "(of_char c :: nat) mod 16 = of_char c' mod 16"
  shows "c = c'"
proof -
  have "(of_char c :: nat) = of_char c'"
    using assms by (metis div_mult_mod_eq)
  then show ?thesis by simp
qed

lemma digit_char_inj: "a < 16 \<Longrightarrow> b < 16 \<Longrightarrow> digit_char a = digit_char b \<Longrightarrow> a = b"
  by (metis digit_value_digit_char option.inject)

lemma escape_char_prefix_code:
  assumes "escape_char c @ x = escape_char c' @ x'"
  shows "c = c' \<and> x = x'"
proof -
  define hi where "hi = (\<lambda>c. digit_char (of_char c div 16))"
  define lo where "lo = (\<lambda>c. digit_char (of_char c mod 16))"
  have e: "escape_char c =
     (if c = CHR 0x08 then [CHR 0x5C, CHR ''b'']
      else if c = CHR 0x09 then [CHR 0x5C, CHR ''t'']
      else if c = CHR 0x0A then [CHR 0x5C, CHR ''n'']
      else if c = CHR 0x0C then [CHR 0x5C, CHR ''f'']
      else if c = CHR 0x0D then [CHR 0x5C, CHR ''r'']
      else if c = CHR 0x22 then [CHR 0x5C, CHR 0x22]
      else if c = CHR 0x5C then [CHR 0x5C, CHR 0x5C]
      else if (of_char c :: nat) < 32
        then [CHR 0x5C, CHR ''u'', CHR ''0'', CHR ''0'', hi c, lo c]
      else [c])" for c
    unfolding hi_def lo_def escape_char_def ..
  have d16: "(of_char a :: nat) div 16 < 16" for a :: char
  proof -
    have "(of_char a :: nat) < 16 * 16" by simp
    then show ?thesis by (rule less_mult_imp_div_less)
  qed
  have hl: "hi a = hi b \<Longrightarrow> lo a = lo b \<Longrightarrow> a = b" for a b
    unfolding hi_def lo_def
    using digit_char_inj [OF d16 d16, of a b]
      digit_char_inj [of "of_char a mod 16" "of_char b mod 16"]
      of_char_div_mod_eq [of a b]
    by simp
  show ?thesis
    using assms by (auto simp: e split: if_splits dest: hl)
qed


lemma hd_escape_char: "hd (escape_char c @ x) \<noteq> CHR 0x22"
  by (simp add: escape_char_def)

lemma escape_char_nonempty: "escape_char c \<noteq> []"
  by (simp add: escape_char_def)

lemma escaped_cont_inj:
  "concat (map escape_char s) @ CHR 0x22 # r = concat (map escape_char s') @ CHR 0x22 # r'
     \<Longrightarrow> s = s' \<and> r = r'"
proof (induction s arbitrary: s')
  case Nil
  show ?case
  proof (cases s')
    case Nil
    with Nil.prems show ?thesis by simp
  next
    case (Cons c cs)
    with Nil.prems have "CHR 0x22 = hd (escape_char c @ concat (map escape_char cs) @ CHR 0x22 # r')"
      by (simp; metis list.sel(1))
    with hd_escape_char show ?thesis by metis
  qed
next
  case (Cons a as)
  show ?case
  proof (cases s')
    case Nil
    with Cons.prems have "CHR 0x22 = hd (escape_char a @ concat (map escape_char as) @ CHR 0x22 # r)"
      by (simp; metis list.sel(1))
    with hd_escape_char show ?thesis by metis
  next
    case (Cons c cs)
    with Cons.prems have "escape_char a @ (concat (map escape_char as) @ CHR 0x22 # r)
        = escape_char c @ (concat (map escape_char cs) @ CHR 0x22 # r')" by simp
    from escape_char_prefix_code [OF this] Cons.IH [of cs] Cons show ?thesis by simp
  qed
qed

lemma quote_cont_inj: "quote s @ r = quote s' @ r' \<Longrightarrow> s = s' \<and> r = r'"
  using escaped_cont_inj [of s r s' r'] by (simp add: quote_def)

lemma not_digit_quote: "\<not> is_digit_in 10 (CHR 0x22)" "CHR 0x22 \<noteq> CHR ''-''"
  by (simp_all add: is_digit_in_def digit_value_def)

lemma stringify_val_cases:
  assumes "stringify_val v = Inr x"
  shows "(\<exists>n. x = int_toString n) \<or> (\<exists>s. x = quote s)"
  using assms by (cases v) auto

lemma stringify_val_cont_inj:
  assumes "stringify_val v = Inr x" and "stringify_val v' = Inr x'"
    and "x @ r = x' @ r'" and "not_digit_next r" and "not_digit_next r'"
  shows "x = x' \<and> r = r'"
proof -
  from stringify_val_cases [OF assms(1)] stringify_val_cases [OF assms(2)]
  consider n n' where "x = int_toString n" "x' = int_toString n'"
    | n s' where "x = int_toString n" "x' = quote s'"
    | s n' where "x = quote s" "x' = int_toString n'"
    | s s' where "x = quote s" "x' = quote s'"
    by blast
  then show ?thesis
  proof cases
    case 1
    with assms int_toString_cont_inj [of n r n' r'] show ?thesis
      by (simp add: not_digit_next_def)
  next
    case 2
    with assms have "hd (int_toString n @ r) = CHR 0x22"
      by (simp add: quote_def)
    with hd_int_toString [of n r] not_digit_quote show ?thesis by auto
  next
    case 3
    with assms have "hd (int_toString n' @ r') = CHR 0x22"
      by (simp add: quote_def; metis list.sel(1))
    with hd_int_toString [of n' r'] not_digit_quote show ?thesis by auto
  next
    case 4
    with assms quote_cont_inj [of s r s' r'] show ?thesis by simp
  qed
qed

lemma stringify_val_inj:
  assumes "primitive v" and "primitive v'" and "stringify_val v = stringify_val v'"
  shows "v = v'"
proof (cases v)
  case nv: (Num n)
  show ?thesis
  proof (cases v')
    case (Num n')
    with nv assms int_toString_cont_inj [of n "[]" n' "[]"] show ?thesis by simp
  next
    case (Str s')
    with nv assms have "hd (int_toString n @ []) = CHR 0x22"
      by (simp add: quote_def)
    with hd_int_toString [of n "[]"] not_digit_quote show ?thesis by auto
  qed (use assms in simp_all)
next
  case sv: (Str s)
  show ?thesis
  proof (cases v')
    case (Num n')
    with sv assms have "hd (int_toString n' @ []) = CHR 0x22"
      by (simp add: quote_def; metis list.sel(1))
    with hd_int_toString [of n' "[]"] not_digit_quote show ?thesis by auto
  next
    case (Str s')
    with sv assms quote_cont_inj [of s "[]" s' "[]"] show ?thesis by simp
  qed (use assms in simp_all)
qed (use assms in simp_all)

lemma stringify_nullable_cont_inj:
  assumes "stringify_nullable v @ r = stringify_nullable v' @ r'"
  shows "v = v' \<and> r = r'"
proof (cases v)
  case n: None
  show ?thesis
  proof (cases v')
    case None
    with n assms show ?thesis by simp
  next
    case (Some s')
    with n assms show ?thesis by (simp add: quote_def)
  qed
next
  case sv: (Some s)
  show ?thesis
  proof (cases v')
    case None
    with sv assms show ?thesis by (simp add: quote_def)
  next
    case (Some s')
    with sv assms quote_cont_inj [of s r s' r'] show ?thesis by simp
  qed
qed


lemma not_digit_comma: "not_digit_next (CHR '','' # r)"
  by (simp add: not_digit_next_def is_digit_in_def digit_value_def)

lemma JSON_stringify_fields:
  assumes "JSON_stringify b = Inr s" and "JSON_stringify b' = Inr s"
  shows "hash b = hash b' \<and> block.height b = block.height b'
       \<and> stringify_val (body b) = stringify_val (body b')
       \<and> stringify_val (time b) = stringify_val (time b')
       \<and> previousBlockHash b = previousBlockHash b'"
proof -
  from assms(1) obtain bj tj where bj: "stringify_val (body b) = Inr bj"
    and tj: "stringify_val (time b) = Inr tj"
    and s: \<open>s = ''{"hash":'' @ stringify_nullable (hash b)
                    @ '',"height":'' @ int_toString (block.height b)
                    @ '',"body":'' @ bj
                    @ '',"time":'' @ tj
                    @ '',"previousBlockHash":'' @ stringify_nullable (previousBlockHash b)
                    @ ''}''\<close>
    by (auto simp: JSON_stringify_def split: sum.splits)
  from assms(2) obtain bj' tj' where bj': "stringify_val (body b') = Inr bj'"
    and tj': "stringify_val (time b') = Inr tj'"
    and s': \<open>s = ''{"hash":'' @ stringify_nullable (hash b')
                    @ '',"height":'' @ int_toString (block.height b')
                    @ '',"body":'' @ bj'
                    @ '',"time":'' @ tj'
                    @ '',"previousBlockHash":'' @ stringify_nullable (previousBlockHash b')
                    @ ''}''\<close>
    by (auto simp: JSON_stringify_def split: sum.splits)
  from s s' have \<open>stringify_nullable (hash b)
        @ ('',"height":'' @ int_toString (block.height b) @ '',"body":'' @ bj @ '',"time":'' @ tj
           @ '',"previousBlockHash":'' @ stringify_nullable (previousBlockHash b) @ ''}'')
      = stringify_nullable (hash b')
        @ ('',"height":'' @ int_toString (block.height b') @ '',"body":'' @ bj' @ '',"time":'' @ tj'
           @ '',"previousBlockHash":'' @ stringify_nullable (previousBlockHash b') @ ''}'')\<close>
    by simp
  from stringify_nullable_cont_inj [OF this]
  have 1: "hash b = hash b'"
    and \<open>int_toString (block.height b)
           @ ('',"body":'' @ bj @ '',"time":'' @ tj
              @ '',"previousBlockHash":'' @ stringify_nullable (previousBlockHash b) @ ''}'')
         = int_toString (block.height b')
           @ ('',"body":'' @ bj' @ '',"time":'' @ tj'
              @ '',"previousBlockHash":'' @ stringify_nullable (previousBlockHash b') @ ''}'')\<close>
    by simp_all
  from int_toString_cont_inj [OF this(2)]
  have 2: "block.height b = block.height b'"
    and \<open>bj @ ('',"time":'' @ tj
              @ '',"previousBlockHash":'' @ stringify_nullable (previousBlockHash b) @ ''}'')
         = bj' @ ('',"time":'' @ tj'
              @ '',"previousBlockHash":'' @ stringify_nullable (previousBlockHash b') @ ''}'')\<close>
    by (simp_all add: is_digit_in_def digit_value_def)
  from stringify_val_cont_inj [OF bj bj' this(2)]
  have 3: "bj = bj'"
    and \<open>tj @ ('',"previousBlockHash":'' @ stringify_nullable (previousBlockHash b) @ ''}'')
         = tj' @ ('',"previousBlockHash":'' @ stringify_nullable (previousBlockHash b') @ ''}'')\<close>
    by (simp_all add: not_digit_comma)
  from stringify_val_cont_inj [OF tj tj' this(2)]
  have 4: "tj = tj'"
    and \<open>stringify_nullable (previousBlockHash b) @ ''}''
         = stringify_nullable (previousBlockHash b') @ ''}''\<close>
    by (simp_all add: not_digit_comma)
  from stringify_nullable_cont_inj [OF this(2)]
  have 5: "previousBlockHash b = previousBlockHash b'" by simp
  from 1 2 3 4 5 bj bj' tj tj' show ?thesis by simp
qed

text \<open>
  On blocks whose \<open>body\<close> and \<open>time\<close> are numbers or strings the serialization is
  injective.
\<close>

lemma JSON_stringify_inj:
  assumes "JSON_stringify b = Inr s" and "JSON_stringify b' = Inr s"
    and "primitive (body b)" and "primitive (body b')"
    and "primitive (time b)" and "primitive (time b')"
  shows "b = b'"
  using JSON_stringify_fields [OF assms(1,2)] assms(3-)
  by (simp add: stringify_val_inj)

section \<open>Blocks\<close>

lemma JSON_stringify_hash_update:
  "JSON_stringify b = Inr s \<Longrightarrow> \<exists>s0. JSON_stringify (b\<lparr>hash := h\<rparr>) = Inr s0"
  by (auto simp: JSON_stringify_def split: sum.splits)

lemma JSON_stringify_hash_update_Inl:
  "JSON_stringify b = Inl e \<Longrightarrow> JSON_stringify (b\<lparr>hash := h\<rparr>) = Inl e"
  by (auto simp: JSON_stringify_def split: sum.splits)

lemma validate_resolves:
  "JSON_stringify (b\<lparr>hash := None\<rparr>) = Inr s \<Longrightarrow> validate H b = (Inr (hash b = Some (H s)), b)"
  by (simp add: validate_def hashBlock_def Let_def)

lemma validate_rejects:
  "JSON_stringify (b\<lparr>hash := None\<rparr>) = Inl e
     \<Longrightarrow> validate H b = (Inl (ValidateBlockError (error_toString e)), b\<lparr>hash := None\<rparr>)"
  by (simp add: validate_def hashBlock_def Let_def)

lemma nat_toString_small: "n < 10 \<Longrightarrow> nat_toString n = [digit_char n]"
  by (subst nat_toString.simps) simp

section \<open>Chain validation and append\<close>

lemma validate_cases:
  "(\<exists>ok. validate H b = (Inr ok, b)) \<or> (\<exists>e. validate H b = (Inl e, b\<lparr>hash := None\<rparr>))"
  by (cases "JSON_stringify (b\<lparr>hash := None\<rparr>)") (simp_all add: validate_rejects validate_resolves)

lemma validate_Inr_same: "validate H b = (Inr ok, b') \<Longrightarrow> b' = b"
  using validate_cases [of H b] by auto

lemma loop_end: "\<not> i < length ch \<Longrightarrow> validateChain_loop H ch i lg rej = (ch, lg, rej)"
  by (subst validateChain_loop.simps) simp

lemma loop_Inl:
  "i < length ch \<Longrightarrow> validate H (ch ! i) = (Inl e, b) \<Longrightarrow>
   validateChain_loop H ch i lg rej =
     validateChain_loop H (ch[i := b]) (Suc i) lg (if rej = None then Some e else rej)"
  by (subst validateChain_loop.simps) (simp add: Let_def)

lemma loop_Inr:
  "i < length ch \<Longrightarrow> validate H (ch ! i) = (Inr ok, b) \<Longrightarrow>
   validateChain_loop H ch i lg rej =
     validateChain_loop H ch (Suc i)
       (lg @ (if ok then [] else [ValidationErrorLog ''Block is not valid''
                                     (BlockData (hash (ch ! i)) (block.height (ch ! i)))])
           @ (if previousBlockHash (ch ! i) \<noteq> None \<and> previousBlockHash (ch ! i) \<noteq> Some []
                  \<and> 0 < i \<and> previousBlockHash (ch ! i) \<noteq> hash (ch ! (i - 1))
              then [ValidationErrorLog ''Block is wrongly linked''
                      (LinkData (hash (ch ! i)) (block.height (ch ! i))
                         (previousBlockHash (ch ! i)) (hash (ch ! (i - 1))))]
              else []))
       rej"
proof -
  assume i: "i < length ch" and v: "validate H (ch ! i) = (Inr ok, b)"
  from v have b: "b = ch ! i" by (rule validate_Inr_same)
  have p: "at_index ch (int i - 1) = (if 0 < i then Some (ch ! (i - 1)) else None)"
    using i by (auto simp: at_index_def nat_diff_distrib)
  show ?thesis
    using i v b p by (subst validateChain_loop.simps) (auto simp: Let_def)
qed

lemma loop_rejected_stays:
  "rej \<noteq> None \<Longrightarrow> snd (snd (validateChain_loop H ch i lg rej)) = rej"
proof (induction "length ch - i" arbitrary: ch i lg)
  case 0
  then show ?case by (simp add: loop_end)
next
  case (Suc n)
  then have i: "i < length ch" by simp
  obtain r b where v: "validate H (ch ! i) = (r, b)" by (cases "validate H (ch ! i)")
  show ?case
  proof (cases r)
    case (Inl e)
    with v i Suc show ?thesis by (auto simp: loop_Inl)
  next
    case (Inr ok)
    with v i Suc show ?thesis by (auto simp: loop_Inr)
  qed
qed

lemma loop_resolved_unchanged:
  "validateChain_loop H ch i lg None = (ch', lg', None) \<Longrightarrow> ch' = ch"
proof (induction "length ch - i" arbitrary: ch i lg)
  case 0
  then show ?case by (simp add: loop_end)
next
  case (Suc n)
  then have i: "i < length ch" by simp
  obtain r b where v: "validate H (ch ! i) = (r, b)" by (cases "validate H (ch ! i)")
  show ?case
  proof (cases r)
    case (Inl e)
    with v i Suc.prems loop_rejected_stays [of "Some e" H "ch[i := b]" "Suc i" lg]
    show ?thesis by (simp add: loop_Inl)
  next
    case (Inr ok)
    with v i Suc.prems have "validateChain_loop H ch (Suc i)
       (lg @ (if ok then [] else [ValidationErrorLog ''Block is not valid''
                                     (BlockData (hash (ch ! i)) (block.height (ch ! i)))])
           @ (if previousBlockHash (ch ! i) \<noteq> None \<and> previousBlockHash (ch ! i) \<noteq> Some []
                  \<and> 0 < i \<and> previousBlockHash (ch ! i) \<noteq> hash (ch ! (i - 1))
              then [ValidationErrorLog ''Block is wrongly linked''
                      (LinkData (hash (ch ! i)) (block.height (ch ! i))
                         (previousBlockHash (ch ! i)) (hash (ch ! (i - 1))))]
              else [])) None = (ch', lg', None)" by (simp add: loop_Inr)
    moreover from Suc.hyps(2) i have "n = length ch - Suc i" by simp
    ultimately show ?thesis by (rule Suc.hyps(1) [rotated])
  qed
qed

lemma validateChain_resolved_unchanged:
  "validateChain H self = (Inr errors, self1) \<Longrightarrow> self1 = self"
proof -
  assume a: "validateChain H self = (Inr errors, self1)"
  obtain ch lg rej where l: "validateChain_loop H (chain self) 0 [] None = (ch, lg, rej)"
    by (cases "validateChain_loop H (chain self) 0 [] None")
  with a have "rej = None" and s: "self1 = self\<lparr>chain := ch\<rparr>"
    by (auto simp: validateChain_def split: option.splits)
  with l loop_resolved_unchanged [of H "chain self" 0 "[]" ch lg] show ?thesis by simp
qed

lemma setHeight_length: "setHeight (int n) b = Inr (b\<lparr>block.height := int n\<rparr>)"
  by (simp add: setHeight_def)

lemma at_index_last:
  "at_index ch (int (length ch) - 1) = (if ch = [] then None else Some (last ch))"
  by (cases ch rule: rev_cases) (auto simp: at_index_def nat_diff_distrib nth_append)

lemma addBlock_success:
  assumes "addBlock H ms self block = (Inr b, self1)"
  shows "self1 = self\<lparr>chain := chain self @ [b], blockchain.height := blockchain.height self + 1\<rparr>"
    and "fst (validateChain H self) = Inr []"
    and "\<exists>s. JSON_stringify (b\<lparr>hash := hash block\<rparr>) = Inr s \<and> hash b = Some (H s)"
    and "block.height b = int (length (chain self))"
    and "body b = body block"
    and "chain self \<noteq> [] \<Longrightarrow> hash (last (chain self)) \<noteq> None
           \<Longrightarrow> previousBlockHash b = hash (last (chain self))"
    and "chain self = [] \<Longrightarrow> previousBlockHash b = previousBlockHash block"
proof -
  obtain r s1 where v: "validateChain H self = (r, s1)" by (cases "validateChain H self")
  from assms v have r: "r = Inr []"
    by (auto simp: addBlock_def Let_def setHeight_length split: sum.splits if_splits)
  with v have s1: "s1 = self" using validateChain_resolved_unchanged by blast
  define b3 where "b3 = (setTimeStamp ms (setPreviousHash
      (case at_index (chain self) (int (length (chain self)) - 1) of Some p \<Rightarrow> hash p | None \<Rightarrow> None)
      block))\<lparr>block.height := int (length (chain self))\<rparr>"
  from assms v r s1 obtain b4 where b4: "setHash H b3 = Inr b4" and b: "b = b4"
    and "self1 = self\<lparr>chain := chain self @ [b4], blockchain.height := blockchain.height self + 1\<rparr>"
    by (auto simp: addBlock_def Let_def setHeight_length b3_def split: sum.splits if_splits)
  then show "self1 = self\<lparr>chain := chain self @ [b], blockchain.height := blockchain.height self + 1\<rparr>"
    by simp
  from v r show "fst (validateChain H self) = Inr []" by simp
  from b4 obtain s where s: "JSON_stringify b3 = Inr s" and b4': "b4 = b3\<lparr>hash := Some (H s)\<rparr>"
    by (auto simp: setHash_def hashBlock_def split: sum.splits)
  have hb3: "hash b3 = hash block"
    by (simp add: b3_def setTimeStamp_def setPreviousHash_def)
  from b b4' hb3 have "b\<lparr>hash := hash block\<rparr> = b3" by simp
  with s b b4' show "\<exists>s. JSON_stringify (b\<lparr>hash := hash block\<rparr>) = Inr s \<and> hash b = Some (H s)"
    by simp
  from b b4' show "block.height b = int (length (chain self))" by (simp add: b3_def)
  from b b4' show "body b = body block"
    by (simp add: b3_def setTimeStamp_def setPreviousHash_def)
  from b b4' show "previousBlockHash b = hash (last (chain self))"
    if "chain self \<noteq> []" "hash (last (chain self)) \<noteq> None"
    using that by (simp add: b3_def setTimeStamp_def setPreviousHash_def at_index_last)
  from b b4' show "previousBlockHash b = previousBlockHash block" if "chain self = []"
    using that by (simp add: b3_def setTimeStamp_def setPreviousHash_def at_index_def)
qed

lemma linked_snoc:
  assumes "linked ch" and "hash b \<noteq> None" and "block.height b = int (length ch)"
    and "ch \<noteq> [] \<Longrightarrow> previousBlockHash b = hash (last ch)"
  shows "linked (ch @ [b])"
  unfolding linked_def
proof (intro allI impI)
  fix i assume "i < length (ch @ [b])"
  then consider "i < length ch" | "i = length ch" by fastforce
  then show "hash ((ch @ [b]) ! i) \<noteq> None \<and> block.height ((ch @ [b]) ! i) = int i
        \<and> (0 < i \<longrightarrow> previousBlockHash ((ch @ [b]) ! i) = hash ((ch @ [b]) ! (i - 1)))"
  proof cases
    case 1
    with assms(1) show ?thesis by (auto simp: linked_def nth_append)
  next
    case 2
    with assms(2-4) show ?thesis by (cases ch rule: rev_cases) (auto simp: nth_append)
  qed
qed

lemma linked_last: "linked ch \<Longrightarrow> ch \<noteq> [] \<Longrightarrow> hash (last ch) \<noteq> None"
  by (cases ch rule: rev_cases) (auto simp: linked_def nth_append)

lemma addBlock_linked:
  assumes "addBlock H ms self block = (Inr b, self1)" and "linked (chain self)"
  shows "linked (chain self1)"
proof -
  note s = addBlock_success [OF assms(1)]
  from s(3) have "hash b \<noteq> None" by auto
  moreover have "previousBlockHash b = hash (last (chain self))" if "chain self \<noteq> []"
    using that s(6) linked_last [OF assms(2)] by simp
  ultimately have "linked (chain self @ [b])"
    using assms(2) s(4) by (intro linked_snoc) simp_all
  with s(1) show ?thesis by simp
qed

lemma appends_linked:
  "appends H self cands = Some self' \<Longrightarrow> linked (chain self) \<Longrightarrow>
   linked (chain self') \<and> length (chain self') = length (chain self) + length cands
   \<and> blockchain.height self' = blockchain.height self + int (length cands)"
proof (induction cands arbitrary: self)
  case Nil
  then show ?case by simp
next
  case (Cons c cands)
  obtain ms block where c: "c = (ms, block)" by (cases c)
  obtain r self1 where a: "addBlock H ms self block = (r, self1)"
    by (cases "addBlock H ms self block")
  with Cons.prems(1) c obtain b where r: "r = Inr b" by (cases r) auto
  with a c Cons.prems(1) have rest: "appends H self1 cands = Some self'" by simp
  from a r have ab: "addBlock H ms self block = (Inr b, self1)" by simp
  from addBlock_linked [OF ab Cons.prems(2)] have l1: "linked (chain self1)" .
  from Cons.IH [OF rest l1] addBlock_success(1) [OF ab] show ?case by simp
qed

text \<open>
  A call of \<open>_addBlock\<close> made when nothing is pending, with the queue run until it is
  empty, is the awaited call \<open>addBlock\<close>.
\<close>

lemma run_queue_done: "run_queue H (self, [], rs) = Some (self, [], rs)"
  by (subst run_queue.simps) simp

lemma run_queue_step:
  "run_queue H (self, t # q, rs)
     = (case resume H self t of (self1, ts, rs1) \<Rightarrow> run_queue H (self1, q @ ts, rs @ rs1))"
  by (subst run_queue.simps) simp

lemma next_end:
  "\<not> i < length (chain self) \<Longrightarrow>
   validateChain_next H self i lg rej cand
     = (self, if rej then [] else [Resume_addBlock cand (Inr lg)])"
  by (simp add: validateChain_next_def)

lemma next_validate:
  "i < length (chain self) \<Longrightarrow> validate H (chain self ! i) = (r, b) \<Longrightarrow>
   validateChain_next H self i lg rej cand
     = (self\<lparr>chain := (chain self)[i := b]\<rparr>, [Resume_validateChain i r lg rej cand])"
  by (simp add: validateChain_next_def)

lemma loop_Inr_issues:
  "i < length ch \<Longrightarrow> validate H (ch ! i) = (Inr ok, b) \<Longrightarrow>
   validateChain_loop H ch i lg rej = validateChain_loop H ch (Suc i) (lg @ issues_at ch i ok) rej"
  by (simp add: loop_Inr issues_at_def)

lemma resume_Inr:
  "i < length (chain self) \<Longrightarrow>
   resume H self (Resume_validateChain i (Inr ok) lg rej cand)
     = (fst (validateChain_next H self (Suc i) (lg @ issues_at (chain self) i ok) rej cand),
        snd (validateChain_next H self (Suc i) (lg @ issues_at (chain self) i ok) rej cand),
        [])"
proof -
  assume i: "i < length (chain self)"
  have p: "at_index (chain self) (int i - 1) = (if 0 < i then Some (chain self ! (i - 1)) else None)"
    using i by (auto simp: at_index_def nat_diff_distrib)
  show ?thesis
    by (auto simp: resume_def Let_def p issues_at_def split: prod.splits)
qed

lemma resume_Inl:
  "resume H self (Resume_validateChain i (Inl e) lg rej cand)
     = (fst (validateChain_next H self (Suc i) lg True cand),
        (if rej then [] else [Resume_addBlock cand (Inl e)])
          @ snd (validateChain_next H self (Suc i) lg True cand),
        [])"
  by (simp add: resume_def split: prod.splits)

lemma queue_rejected:
  "run_queue H (fst (validateChain_next H self i lg True cand),
                snd (validateChain_next H self i lg True cand), rs)
     = Some (self\<lparr>chain := fst (validateChain_loop H (chain self) i lg (Some e))\<rparr>, [], rs)"
proof (induction "length (chain self) - i" arbitrary: self i lg)
  case 0
  then show ?case by (simp add: next_end loop_end run_queue_done)
next
  case (Suc n)
  then have i: "i < length (chain self)" by simp
  obtain r b where v: "validate H (chain self ! i) = (r, b)"
    by (cases "validate H (chain self ! i)")
  let ?self1 = "self\<lparr>chain := (chain self)[i := b]\<rparr>"
  from Suc.hyps(2) have n: "n = length (chain ?self1) - Suc i" by simp
  show ?case
  proof (cases r)
    case (Inl e')
    with v i Suc.hyps(1) [OF n, of lg] show ?thesis
      by (simp add: next_validate loop_Inl run_queue_step resume_Inl)
  next
    case (Inr ok)
    with v have b: "b = chain self ! i" using validate_Inr_same by blast
    then have s: "?self1 = self" by simp
    from i have i1: "i < length (chain ?self1)" by simp
    from Inr v i Suc.hyps(1) [OF n] show ?thesis
      unfolding next_validate [OF i v] loop_Inr_issues [OF i v [unfolded Inr]]
      by (simp add: run_queue_step resume_Inr [OF i] b)
  qed
qed


lemma resume_addBlock_Inl:
  "resume H self (Resume_addBlock cand (Inl e))
     = (self, [], [Inl (AddNewBlockError (error_message e))])"
  by (simp add: resume_def)

lemma resume_addBlock_Inr:
  "resume H self (Resume_addBlock cand (Inr lg))
     = (if lg \<noteq> [] then (self, [], [Inl (AddNewBlockError ''Chain is invalid!'')])
        else (self\<lparr>chain := chain self @ [cand],
                   blockchain.height := blockchain.height self + 1\<rparr>, [], [Inr cand]))"
  by (simp add: resume_def)

lemma queue_pending:
  "run_queue H (fst (validateChain_next H self i lg False cand),
                snd (validateChain_next H self i lg False cand), rs)
     = Some (addBlock_outcome self cand rs (validateChain_loop H (chain self) i lg None))"
proof (induction "length (chain self) - i" arbitrary: self i lg)
  case 0
  then show ?case
    by (simp add: next_end loop_end run_queue_step resume_addBlock_Inr run_queue_done
          addBlock_outcome_def)
next
  case (Suc n)
  then have i: "i < length (chain self)" by simp
  obtain r b where v: "validate H (chain self ! i) = (r, b)"
    by (cases "validate H (chain self ! i)")
  let ?self1 = "self\<lparr>chain := (chain self)[i := b]\<rparr>"
  from Suc.hyps(2) have n: "n = length (chain ?self1) - Suc i" by simp
  show ?case
  proof (cases r)
    case (Inl e)
    obtain ch lg' where l: "validateChain_loop H ((chain self)[i := b]) (Suc i) lg (Some e)
        = (ch, lg', Some e)"
      using loop_rejected_stays [of "Some e" H "(chain self)[i := b]" "Suc i" lg]
      by (cases "validateChain_loop H ((chain self)[i := b]) (Suc i) lg (Some e)") simp
    from Inl v i l queue_rejected [of H ?self1 "Suc i" lg cand _ e] show ?thesis
      by (simp add: next_validate loop_Inl run_queue_step resume_Inl resume_addBlock_Inl run_queue_done addBlock_outcome_def)
  next
    case (Inr ok)
    with v have b: "b = chain self ! i" using validate_Inr_same by blast
    from Inr v i Suc.hyps(1) [OF n] show ?thesis
      unfolding next_validate [OF i v] loop_Inr_issues [OF i v [unfolded Inr]]
      by (simp add: run_queue_step resume_Inr [OF i] b)
  qed
qed

lemma run_queue_addBlock:
  "run_queue H (call_addBlock H ms block (self, [], rs))
     = Some (snd (addBlock H ms self block), [], rs @ [fst (addBlock H ms self block)])"
proof -
  have "run_queue H (case validateChain_next H self 0 [] False cand of
                       (self1, ts) \<Rightarrow> (self1, ts, rs))
        = Some (addBlock_outcome self cand rs (validateChain_loop H (chain self) 0 [] None))" for cand
    using queue_pending [of H self 0 "[]" cand rs] by (simp add: case_prod_unfold)
  moreover have "addBlock_outcome self cand rs (validateChain_loop H (chain self) 0 [] None)
        = (case validateChain H self of
             (Inl e, self1) \<Rightarrow> (self1, [], rs @ [Inl (AddNewBlockError (error_message e))])
           | (Inr errors, self1) \<Rightarrow>
               if errors \<noteq> [] then (self1, [], rs @ [Inl (AddNewBlockError ''Chain is invalid!'')])
               else (self1\<lparr>chain := chain self1 @ [cand],
                           blockchain.height := blockchain.height self1 + 1\<rparr>, [], rs @ [Inr cand]))"
    for cand
    by (simp add: addBlock_outcome_def validateChain_def split: prod.splits option.splits)
  ultimately have q: "run_queue H (case validateChain_next H self 0 [] False cand of
                       (self1, ts) \<Rightarrow> (self1, ts, rs))
        = Some (case validateChain H self of
             (Inl e, self1) \<Rightarrow> (self1, [], rs @ [Inl (AddNewBlockError (error_message e))])
           | (Inr errors, self1) \<Rightarrow>
               if errors \<noteq> [] then (self1, [], rs @ [Inl (AddNewBlockError ''Chain is invalid!'')])
               else (self1\<lparr>chain := chain self1 @ [cand],
                           blockchain.height := blockchain.height self1 + 1\<rparr>, [], rs @ [Inr cand]))"
    for cand by simp
  let ?b2 = "setTimeStamp ms (setPreviousHash
      (case at_index (chain self) (int (length (chain self)) - 1) of
         Some p \<Rightarrow> hash p | None \<Rightarrow> None) block)"
  show ?thesis
  proof (cases "setHeight (int (length (chain self))) ?b2")
    case (Inl e)
    then show ?thesis
      by (simp add: call_addBlock_def addBlock_start_def addBlock_def Let_def run_queue_done)
  next
    case b3: (Inr block3)
    show ?thesis
    proof (cases "setHash H block3")
      case (Inl e)
      with b3 show ?thesis
        by (simp add: call_addBlock_def addBlock_start_def addBlock_def Let_def run_queue_done)
    next
      case (Inr block4)
      with b3 q [of block4] show ?thesis
        by (simp add: call_addBlock_def addBlock_start_def addBlock_def Let_def
              split: prod.splits sum.splits)
    qed
  qed
qed

lemma appends_run:
  "appends H self ((ms, block) # rest)
     = (case run_queue H (call_addBlock H ms block (self, [], [])) of
          Some (self1, queue, [Inr b]) \<Rightarrow> appends H self1 rest
        | _ \<Rightarrow> None)"
  by (cases "addBlock H ms self block")
     (auto simp: run_queue_addBlock split: sum.splits)

lemma new_Blockchain_call:
  "new_Blockchain H enc ms
     = call_addBlock H ms (new_Block enc (JObj [(''data'', JStr ''Genesis Block'')]))
         (\<lparr>chain = [], height = - 1, limitTime = minuteToSeconds 5\<rparr>, [], [])"
  by (simp add: new_Blockchain_def initializeChain_def call_addBlock_def split: prod.splits)

lemma genesis_chain_eq:
  "genesis_chain H enc ms = \<lparr>chain = [genesis_block H enc ms], height = 0, limitTime = 300\<rparr>"
  unfolding genesis_chain_def new_Blockchain_call run_queue_addBlock
  by (simp add: addBlock_def Let_def at_index_def
        setPreviousHash_def setTimeStamp_def setHeight_def setHash_def hashBlock_def
        new_Block_def validateChain_def loop_end genesis_block_def minuteToSeconds_def
        JSON_stringify_def split: sum.splits)

lemma linked_genesis: "linked [genesis_block H enc ms]"
  by (simp add: linked_def genesis_block_def Let_def)

lemma loop_single_issue:
  assumes "\<forall>j. i \<le> j \<and> j < length ch \<longrightarrow> validate H (ch ! j) = (Inr (j \<noteq> k), ch ! j)"
    and "\<forall>j. i \<le> j \<and> j < length ch \<and> 0 < j \<longrightarrow> previousBlockHash (ch ! j) = hash (ch ! (j - 1))"
  shows "validateChain_loop H ch i lg rej =
           (ch, lg @ (if i \<le> k \<and> k < length ch
                      then [ValidationErrorLog ''Block is not valid''
                              (BlockData (hash (ch ! k)) (block.height (ch ! k)))]
                      else []), rej)"
  using assms
proof (induction "length ch - i" arbitrary: i lg)
  case 0
  then show ?case by (simp add: loop_end)
next
  case (Suc n)
  then have i: "i < length ch" by simp
  from Suc.prems(1) i have v: "validate H (ch ! i) = (Inr (i \<noteq> k), ch ! i)" by simp
  from Suc.prems(2) i
  have l: "\<not> (previousBlockHash (ch ! i) \<noteq> None \<and> previousBlockHash (ch ! i) \<noteq> Some []
                  \<and> 0 < i \<and> previousBlockHash (ch ! i) \<noteq> hash (ch ! (i - 1)))" by auto
  have n: "n = length ch - Suc i" using Suc.hyps(2) by simp
  have p1: "\<forall>j. Suc i \<le> j \<and> j < length ch \<longrightarrow> validate H (ch ! j) = (Inr (j \<noteq> k), ch ! j)"
    using Suc.prems(1) by simp
  have p2: "\<forall>j. Suc i \<le> j \<and> j < length ch \<and> 0 < j \<longrightarrow>
      previousBlockHash (ch ! j) = hash (ch ! (j - 1))"
    using Suc.prems(2) by simp
  note ih = Suc.hyps(1) [OF n p1 p2]
  have step: "validateChain_loop H ch i lg rej =
      validateChain_loop H ch (Suc i)
        (lg @ (if i \<noteq> k then [] else [ValidationErrorLog ''Block is not valid''
                                     (BlockData (hash (ch ! i)) (block.height (ch ! i)))]) @ [])
        rej"
    by (subst loop_Inr [OF i v], subst if_not_P [OF l]) (rule refl)
  show ?case
  proof (cases "i = k")
    case True
    with i show ?thesis unfolding step ih by simp
  next
    case False
    with i show ?thesis unfolding step ih by auto
  qed
qed

lemma sealed_by_validate: "sealed_by H b \<Longrightarrow> validate H b = (Inr True, b)"
  by (auto simp: sealed_by_def validate_resolves split: sum.splits)

lemma addBlock_sealed:
  assumes "addBlock H ms self block = (Inr b, self1)" and "hash block = None"
  shows "sealed_by H b"
  using addBlock_success(3) [OF assms(1)] assms(2) by (auto simp: sealed_by_def)

lemma appends_sealed:
  "appends H self cands = Some self' \<Longrightarrow> \<forall>c \<in> set cands. hash (snd c) = None \<Longrightarrow>
   \<forall>b \<in> set (chain self). sealed_by H b \<Longrightarrow> \<forall>b \<in> set (chain self'). sealed_by H b"
proof (induction cands arbitrary: self)
  case Nil
  then show ?case by simp
next
  case (Cons c cands)
  obtain ms block where c: "c = (ms, block)" by (cases c)
  obtain r self1 where a: "addBlock H ms self block = (r, self1)"
    by (cases "addBlock H ms self block")
  with Cons.prems(1) c obtain b where r: "r = Inr b" by (cases r) auto
  with a c Cons.prems(1) have rest: "appends H self1 cands = Some self'" by simp
  from a r have ab: "addBlock H ms self block = (Inr b, self1)" by simp
  from Cons.prems(2) c have "hash block = None" by simp
  from addBlock_sealed [OF ab this] addBlock_success(1) [OF ab] Cons.prems(3)
  have "\<forall>b \<in> set (chain self1). sealed_by H b" by simp
  moreover from Cons.prems(2) have "\<forall>c \<in> set cands. hash (snd c) = None" by simp
  ultimately show ?case using Cons.IH [OF rest] by blast
qed

lemma sealed_genesis: "sealed_by H (genesis_block H enc ms)"
  by (simp add: sealed_by_def genesis_block_def Let_def JSON_stringify_def)

lemma tampered_body_validate:
  assumes "sealed_by H b" and "stringify_val v = Inr vj" and "stringify_val (body b) \<noteq> Inr vj"
    and "inj_on H {s. JSON_stringify (b\<lparr>hash := None\<rparr>) = Inr s
                      \<or> JSON_stringify (b\<lparr>hash := None, body := v\<rparr>) = Inr s}"
  shows "validate H (b\<lparr>body := v\<rparr>) = (Inr False, b\<lparr>body := v\<rparr>)"
proof -
  from assms(1) obtain s where s: "JSON_stringify (b\<lparr>hash := None\<rparr>) = Inr s"
    and h: "hash b = Some (H s)"
    by (auto simp: sealed_by_def split: sum.splits)
  from s assms(2) obtain s' where s': "JSON_stringify (b\<lparr>hash := None, body := v\<rparr>) = Inr s'"
    by (auto simp: JSON_stringify_def split: sum.splits)
  have "s \<noteq> s'"
  proof
    assume "s = s'"
    with s s' JSON_stringify_fields [of "b\<lparr>hash := None\<rparr>" s "b\<lparr>hash := None, body := v\<rparr>"]
    have "stringify_val (body b) = stringify_val v" by simp
    with assms(2,3) show False by simp
  qed
  with assms(4) s s' have "H s' \<noteq> H s" by (auto simp: inj_on_def)
  moreover have "b\<lparr>body := v\<rparr>\<lparr>hash := None\<rparr> = b\<lparr>hash := None, body := v\<rparr>"
    by (cases b) simp
  then have "JSON_stringify (b\<lparr>body := v\<rparr>\<lparr>hash := None\<rparr>) = Inr s'"
    using s' by (simp only:)
  ultimately show ?thesis
    using validate_resolves [of "b\<lparr>body := v\<rparr>" s' H] h by simp
qed

lemma JSON_stringify_error:
  "JSON_stringify b = Inl e \<Longrightarrow> e = JsError ''TypeError'' ''Do not know how to serialize a BigInt''"
proof -
  have v: "stringify_val x = Inl e \<Longrightarrow> e = JsError ''TypeError'' ''Do not know how to serialize a BigInt''"
    for x by (cases x) simp_all
  assume "JSON_stringify b = Inl e"
  then show ?thesis
    by (auto simp: JSON_stringify_def split: sum.splits dest: v)
qed

lemma validate_error: "validate H b = (Inl e, b') \<Longrightarrow> e = cannot_serialize"
proof -
  assume a: "validate H b = (Inl e, b')"
  show ?thesis
  proof (cases "JSON_stringify (b\<lparr>hash := None\<rparr>)")
    case (Inl x)
    from JSON_stringify_error [OF Inl] validate_rejects [OF Inl, of H] a show ?thesis
      by (simp add: error_toString_def cannot_serialize_def)
  next
    case (Inr s)
    from validate_resolves [OF Inr, of H] a show ?thesis by simp
  qed
qed

lemma loop_rejected_error:
  "snd (snd (validateChain_loop H ch i lg rej)) = rej
   \<or> snd (snd (validateChain_loop H ch i lg rej)) = Some cannot_serialize"
proof (induction "length ch - i" arbitrary: ch i lg rej)
  case 0
  then show ?case by (simp add: loop_end)
next
  case (Suc n)
  then have i: "i < length ch" by simp
  obtain r b where v: "validate H (ch ! i) = (r, b)" by (cases "validate H (ch ! i)")
  show ?case
  proof (cases r)
    case (Inl e)
    with v have e: "e = cannot_serialize" using validate_error by blast
    from Suc.hyps(2) i have "n = length (ch[i := b]) - Suc i" by simp
    from Suc.hyps(1) [OF this]
    have "snd (snd (validateChain_loop H (ch[i := b]) (Suc i) lg (if rej = None then Some e else rej)))
          = (if rej = None then Some e else rej)
       \<or> snd (snd (validateChain_loop H (ch[i := b]) (Suc i) lg (if rej = None then Some e else rej)))
          = Some cannot_serialize" .
    with Inl v i e show ?thesis by (auto simp: loop_Inl split: if_splits)
  next
    case (Inr ok)
    from Suc.hyps(2) i have "n = length ch - Suc i" by simp
    from Suc.hyps(1) [OF this] Inr v i show ?thesis by (simp add: loop_Inr)
  qed
qed

lemma validateChain_error: "validateChain H self = (Inl e, self1) \<Longrightarrow> e = cannot_serialize"
proof -
  assume a: "validateChain H self = (Inl e, self1)"
  obtain ch lg rej where l: "validateChain_loop H (chain self) 0 [] None = (ch, lg, rej)"
    by (cases "validateChain_loop H (chain self) 0 [] None")
  with a have "rej = Some e" by (auto simp: validateChain_def split: option.splits)
  with l loop_rejected_error [of H "chain self" 0 "[]" None] show ?thesis by simp
qed

lemma addBlock_error:
  assumes "addBlock H ms self block = (Inl e, self1)"
  shows "e = AddNewBlockError ''Chain is invalid!''
       \<or> e = AddNewBlockError ''Do not know how to serialize a BigInt''
       \<or> e = AddNewBlockError ''TypeError: Do not know how to serialize a BigInt''"
proof -
  have h: "setHash H b = Inl x \<Longrightarrow> error_message x = ''Do not know how to serialize a BigInt''" for b x
    by (auto simp: setHash_def hashBlock_def split: sum.splits dest: JSON_stringify_error)
  have v: "validateChain H self = (Inl x, s1) \<Longrightarrow>
      error_message x = ''TypeError: Do not know how to serialize a BigInt''" for x s1
    by (auto dest: validateChain_error simp: cannot_serialize_def)
  obtain r s1 where vc: "validateChain H self = (r, s1)" by (cases "validateChain H self")
  from assms vc show ?thesis
    by (cases r) (auto simp: addBlock_def Let_def setHeight_length split: sum.splits if_splits dest: h v)
qed


lemma stars_loop_fails:
  "\<exists>b \<in> set bs. isl (getBData decode b) \<Longrightarrow> isl (stars_loop decode address bs stars)"
proof (induction bs arbitrary: stars)
  case Nil
  then show ?case by simp
next
  case (Cons b bs)
  show ?case
  proof (cases "getBData decode b")
    case (Inl e)
    then show ?thesis by simp
  next
    case (Inr parsed)
    with Cons.prems have "\<exists>b \<in> set bs. isl (getBData decode b)" by auto
    from Cons.IH [OF this] Inr show ?thesis
      by (auto split: json.splits option.splits)
  qed
qed

lemma nat_toString_numeral:
  "nat_toString (numeral k) =
     (if numeral k < (10::nat) then [digit_char (numeral k)]
      else nat_toString (numeral k div 10) @ [digit_char (numeral k mod 10)])"
  by (rule nat_toString.simps)

lemma getTimeStamp_examples:
  "getTimeStamp 2000 = ''2''" "getTimeStamp 305000 = ''305''" "getTimeStamp 306000 = ''306''"
  by (simp_all add: getTimeStamp_def int_toString_def nat_toString_numeral digit_char_def)

lemma parseInt_examples:
  "parseInt ''2'' = Some 2" "parseInt ''305'' = Some 305" "parseInt ''306'' = Some 306"
  by code_simp+

lemma issue_time_examples:
  "parseInt_arg (at_index (split CHR '':'' ''addr:1:starRegistry'') 1) = Some 1"
  "parseInt_arg (at_index (split CHR '':'' ''addr:5:starRegistry'') 1) = Some 5"
  "parseInt_arg (at_index (split CHR '':'' ''addr:soon:starRegistry'') 1) = None"
  by code_simp+









lemma stars_loop_origin:
  "stars_loop decode address bs acc = Inr stars \<Longrightarrow>
   \<forall>d \<in> set stars. d \<in> set acc \<or>
     (\<exists>b \<in> set bs. \<exists>parsed. getBData decode b = Inr parsed \<and> member parsed ''data'' = Some d
        \<and> member d ''owner'' = Some (JStr address))"
proof (induction bs arbitrary: acc)
  case Nil
  then show ?case by auto
next
  case (Cons b bs)
  from Cons.prems obtain parsed d where p: "getBData decode b = Inr parsed"
    and d: "member parsed ''data'' = Some d"
    and r: "stars_loop decode address bs
              (if member d ''owner'' = Some (JStr address) then acc @ [d] else acc) = Inr stars"
    by (auto split: sum.splits json.splits option.splits if_splits)
  from Cons.IH [OF r] p d show ?case
    by (auto split: if_splits)
qed

section \<open>The claims\<close>




text \<open>
  C2 (amended). Take the chain of a new \<open>Blockchain\<close> once the append of the genesis
  block has settled, and a sequence of successful appends to it, each awaited before the
  next call of \<open>_addBlock\<close> is made, of blocks whose \<open>hash\<close> was \<open>null\<close> when they were
  handed to \<open>_addBlock\<close>, as \<open>new Block\<close> leaves it. If the body of the block at index
  \<open>k\<close> is replaced by a value that \<open>JSON.stringify\<close> serializes to a text other than the
  text of the body it replaces, and the digest is injective on the serializations of that
  block before and after, then \<open>validateChain\<close> resolves with exactly one entry,
  \<open>Block is not valid\<close>, carrying the hash of that block and the height \<open>k\<close>; the chain is
  left as it was.
\<close>

theorem C2_single_tampered_block:
  assumes "appends SHA256 (genesis_chain SHA256 encode ms0) cands = Some self"
    and "\<forall>c \<in> set cands. hash (snd c) = None"
    and "k < length (chain self)"
    and "stringify_val v = Inr vj"
    and "stringify_val (body (chain self ! k)) \<noteq> Inr vj"
    and "inj_on SHA256
           {s. JSON_stringify ((chain self ! k)\<lparr>hash := None\<rparr>) = Inr s
               \<or> JSON_stringify ((chain self ! k)\<lparr>hash := None, body := v\<rparr>) = Inr s}"
  shows "validateChain SHA256 (self\<lparr>chain := (chain self)[k := (chain self ! k)\<lparr>body := v\<rparr>]\<rparr>)
       = (Inr [ValidationErrorLog ''Block is not valid'' (BlockData (hash (chain self ! k)) (int k))],
          self\<lparr>chain := (chain self)[k := (chain self ! k)\<lparr>body := v\<rparr>]\<rparr>)"
proof -
  let ?ch = "chain self"
  let ?ch' = "?ch[k := (?ch ! k)\<lparr>body := v\<rparr>]"
  have lk: "linked ?ch"
    using appends_linked [OF assms(1)] linked_genesis [of SHA256 encode ms0]
    by (simp add: genesis_chain_eq)
  have sl: "\<forall>b \<in> set ?ch. sealed_by SHA256 b"
    using appends_sealed [OF assms(1,2)] sealed_genesis [of SHA256 encode ms0]
    by (simp add: genesis_chain_eq)
  have hash_same: "hash (?ch' ! j) = hash (?ch ! j)" if "j < length ?ch" for j
    using that by (cases "j = k") simp_all
  have prev_same: "previousBlockHash (?ch' ! j) = previousBlockHash (?ch ! j)" if "j < length ?ch" for j
    using that by (cases "j = k") simp_all
  have v: "\<forall>j. 0 \<le> j \<and> j < length ?ch' \<longrightarrow> validate SHA256 (?ch' ! j) = (Inr (j \<noteq> k), ?ch' ! j)"
  proof (intro allI impI)
    fix j assume j: "0 \<le> j \<and> j < length ?ch'"
    show "validate SHA256 (?ch' ! j) = (Inr (j \<noteq> k), ?ch' ! j)"
    proof (cases "j = k")
      case True
      from sl assms(3) have "sealed_by SHA256 (?ch ! k)" by simp
      from tampered_body_validate [OF this assms(4,5,6)] True assms(3) show ?thesis by simp
    next
      case False
      with j sl have "sealed_by SHA256 (?ch' ! j)" by simp
      with False show ?thesis by (simp add: sealed_by_validate)
    qed
  qed
  have l: "\<forall>j. 0 \<le> j \<and> j < length ?ch' \<and> 0 < j \<longrightarrow>
      previousBlockHash (?ch' ! j) = hash (?ch' ! (j - 1))"
  proof (intro allI impI)
    fix j assume j: "0 \<le> j \<and> j < length ?ch' \<and> 0 < j"
    then have "previousBlockHash (?ch ! j) = hash (?ch ! (j - 1))"
      using lk by (simp add: linked_def)
    with j show "previousBlockHash (?ch' ! j) = hash (?ch' ! (j - 1))"
      using hash_same [of "j - 1"] prev_same [of j] by auto
  qed
  have hk: "block.height (?ch ! k) = int k" using lk assms(3) by (simp add: linked_def)
  from loop_single_issue [OF v l, of "[]" None] assms(3) hk
  show ?thesis by (simp add: validateChain_def)
qed

text \<open>
  An instance: the payload of block 1 of a two-block chain is replaced.
\<close>

theorem C2_witness:
  "validateChain plain_digest
     (sample_chain\<lparr>chain := (chain sample_chain)[1 := (chain sample_chain ! 1)\<lparr>body := Str ''00''\<rparr>]\<rparr>)
   = (Inr [ValidationErrorLog ''Block is not valid'' (BlockData (hash (chain sample_chain ! 1)) 1)],
      sample_chain\<lparr>chain := (chain sample_chain)[1 := (chain sample_chain ! 1)\<lparr>body := Str ''00''\<rparr>]\<rparr>)"
proof -
  have "appends plain_digest (genesis_chain plain_digest encode_stub 1000)
          [(2000, new_Block encode_stub JNull)] \<noteq> None"
    by code_simp
  then have 1: "appends plain_digest (genesis_chain plain_digest encode_stub 1000)
          [(2000, new_Block encode_stub JNull)] = Some sample_chain"
    by (auto simp: sample_chain_def)
  have 2: "\<forall>c \<in> set [(2000 :: int, new_Block encode_stub JNull)]. hash (snd c) = None"
    by (simp add: new_Block_def)
  have 3: "1 < length (chain sample_chain)"
    using appends_linked [OF 1] by (simp add: genesis_chain_eq linked_genesis)
  have 4: "stringify_val (Str ''00'') = Inr (quote ''00'')" by simp
  have "body (chain sample_chain ! 1) = Str ''7b7d''"
    unfolding sample_chain_def by code_simp
  moreover have "quote ''7b7d'' \<noteq> quote ''00''" by code_simp
  ultimately have 5: "stringify_val (body (chain sample_chain ! 1)) \<noteq> Inr (quote ''00'')"
    by simp
  have 6: "inj_on plain_digest
     {s. JSON_stringify ((chain sample_chain ! 1)\<lparr>hash := None\<rparr>) = Inr s
         \<or> JSON_stringify ((chain sample_chain ! 1)\<lparr>hash := None, body := Str ''00''\<rparr>) = Inr s}"
    by (simp add: inj_on_def plain_digest_def)
  from C2_single_tampered_block [OF 1 2 3 4 5 6] show ?thesis by simp
qed

text \<open>
  The claim as first stated fails in several ways. The append of a block whose \<open>hash\<close>
  was set beforehand succeeds; after the payload of the genesis block of that chain is
  replaced, \<open>validateChain\<close> resolves with two entries. When a payload is replaced by a
  BigInt, \<open>validateChain\<close> rejects instead of resolving with a list. When the payload
  \<open>7b7d\<close> is replaced by the \<open>String\<close> object of the same text, \<open>validateChain\<close> resolves
  with no entry. When two appends are started one right after the other, both resolve and
  the second block has the height and the predecessor of the first: after the payload of
  block 1 is replaced, \<open>validateChain\<close> resolves with two entries. And when an append is
  started right after the constructor, it resolves and block 1 has height 0: after its
  payload is replaced, the one entry carries the height 0.
\<close>

theorem C2_counterexample:
  "appends plain_digest (genesis_chain plain_digest encode_stub 1000)
     [(2000, (new_Block encode_stub JNull)\<lparr>hash := Some ''ab''\<rparr>)] = Some presealed_chain
   \<and> \<not> isl (fst (validateChain plain_digest
        (presealed_chain\<lparr>chain := (chain presealed_chain)
             [0 := (chain presealed_chain ! 0)\<lparr>body := Str ''00''\<rparr>]\<rparr>)))
   \<and> length (projr (fst (validateChain plain_digest
        (presealed_chain\<lparr>chain := (chain presealed_chain)
             [0 := (chain presealed_chain ! 0)\<lparr>body := Str ''00''\<rparr>]\<rparr>)))) = 2
   \<and> isl (fst (validateChain plain_digest
        (sample_chain\<lparr>chain := (chain sample_chain)
             [1 := (chain sample_chain ! 1)\<lparr>body := BigInt 3\<rparr>]\<rparr>)))
   \<and> body (chain sample_chain ! 1) = Str ''7b7d''
   \<and> fst (validateChain plain_digest
        (sample_chain\<lparr>chain := (chain sample_chain)
             [1 := (chain sample_chain ! 1)\<lparr>body := StringObject ''7b7d''\<rparr>]\<rparr>)) = Inr []
   \<and> fst (snd joint_appends) = []
   \<and> map isl (snd (snd joint_appends)) = [False, False]
   \<and> length (chain (fst joint_appends)) = 3
   \<and> \<not> isl (fst (validateChain plain_digest joint_tampered))
   \<and> length (projr (fst (validateChain plain_digest joint_tampered))) = 2
   \<and> fst (snd early_append) = []
   \<and> map isl (snd (snd early_append)) = [False, False]
   \<and> fst (validateChain plain_digest
        ((fst early_append)\<lparr>chain := (chain (fst early_append))
             [1 := (chain (fst early_append) ! 1)\<lparr>body := Str ''00''\<rparr>]\<rparr>))
       = Inr [ValidationErrorLog ''Block is not valid''
                (BlockData (hash (chain (fst early_append) ! 1)) 0)]"
  unfolding presealed_chain_def sample_chain_def joint_tampered_def joint_appends_def
    early_append_def
  by code_simp







text \<open>
  C5. For a message whose second segment parses to the integer \<open>issue_time\<close>, with the
  clock at \<open>now\<close> seconds and the limit of \<open>minuteToSeconds(5)\<close> the constructor sets,
  \<open>submitStar\<close> rejects with the error \<open>Too much time passed between request validation
  and submit\<close> exactly when \<open>now - issue_time > 300\<close>. The only assumption on the
  signature check is that it does not itself throw an error with that very message.
\<close>

theorem C5_expired_iff:
  assumes "parseInt_arg (at_index (split CHR '':'' message) 1) = Some issue_time"
    and "parseInt (getTimeStamp ms) = Some now"
    and "limitTime self = minuteToSeconds 5"
    and "\<forall>e. verify message address signature = Inl e \<longrightarrow>
           rewrap e \<noteq> new_SubmitStarError ''Too much time passed between request validation and submit''"
  shows "fst (submitStar SHA256 verify encode ms ms' self address message signature star)
           = Inl (new_SubmitStarError ''Too much time passed between request validation and submit'')
         \<longleftrightarrow> 300 < now - issue_time"
proof (cases "300 < now - issue_time")
  case True
  with assms(1-3) show ?thesis
    by (simp add: submitStar_def Let_def js_minus_def js_greater_def minuteToSeconds_def)
next
  case False
  let ?nb = "new_Block encode (JObj [(''data'', JObj [(''owner'', JStr address), (''star'', star)])])"
  have fresh: "\<not> js_greater (js_minus (parseInt (getTimeStamp ms))
      (parseInt_arg (at_index (split CHR '':'' message) 1))) (limitTime self)"
    using False assms(1-3) by (simp add: js_minus_def js_greater_def minuteToSeconds_def)
  have "fst (submitStar SHA256 verify encode ms ms' self address message signature star)
      \<noteq> Inl (new_SubmitStarError ''Too much time passed between request validation and submit'')"
  proof (cases "verify message address signature")
    case (Inl e)
    with fresh assms(4) show ?thesis by (simp add: submitStar_def Let_def)
  next
    case (Inr verified)
    show ?thesis
    proof (cases verified)
      case False
      with Inr fresh show ?thesis
        by (simp add: submitStar_def Let_def new_SubmitStarError_def)
    next
      case True
      obtain r s1 where a: "addBlock SHA256 ms' self ?nb = (r, s1)"
        by (cases "addBlock SHA256 ms' self ?nb")
      show ?thesis
      proof (cases r)
        case (Inl e)
        with a addBlock_error [of SHA256 ms' self ?nb e s1]
        have "rewrap e \<noteq> new_SubmitStarError ''Too much time passed between request validation and submit''"
          by (auto simp: rewrap_def new_SubmitStarError_def)
        with Inl a True Inr fresh show ?thesis by (simp add: submitStar_def Let_def)
      next
        case (Inr b)
        with a True \<open>verify message address signature = Inr verified\<close> fresh show ?thesis
          by (simp add: submitStar_def Let_def)
      qed
    qed
  qed
  with False show ?thesis by simp
qed

text \<open>
  An instance at the boundary: 300 seconds after the issue time the submission is not
  rejected as expired, 301 seconds after it is.
\<close>

theorem C5_witness:
  "fst (submitStar plain_digest (verify_stub True) encode_stub 305000 2000
          (genesis_chain plain_digest encode_stub 1000) ''addr'' ''addr:5:starRegistry'' ''sig'' JNull)
     \<noteq> Inl (new_SubmitStarError ''Too much time passed between request validation and submit'')
   \<and> fst (submitStar plain_digest (verify_stub True) encode_stub 306000 2000
          (genesis_chain plain_digest encode_stub 1000) ''addr'' ''addr:5:starRegistry'' ''sig'' JNull)
     = Inl (new_SubmitStarError ''Too much time passed between request validation and submit'')"
proof -
  have 1: "parseInt_arg (at_index (split CHR '':'' ''addr:5:starRegistry'') 1) = Some 5"
    by (rule issue_time_examples)
  have 2: "parseInt (getTimeStamp 305000) = Some 305" "parseInt (getTimeStamp 306000) = Some 306"
    by (simp_all add: getTimeStamp_examples parseInt_examples)
  have 3: "limitTime (genesis_chain plain_digest encode_stub 1000) = minuteToSeconds 5"
    by (simp add: genesis_chain_eq minuteToSeconds_def)
  have 4: "\<forall>e. verify_stub True ''addr:5:starRegistry'' ''addr'' ''sig'' = Inl e \<longrightarrow>
      rewrap e \<noteq> new_SubmitStarError ''Too much time passed between request validation and submit''"
    by (simp add: verify_stub_def)
  note inst = C5_expired_iff [where verify = "verify_stub True" and message = "''addr:5:starRegistry''"
      and address = "''addr''" and signature = "''sig''" and ?SHA256.0 = plain_digest
      and encode = encode_stub and ms' = 2000 and star = JNull
      and self = "genesis_chain plain_digest encode_stub 1000"]
  from inst [OF 1 2(1) 3 4] inst [OF 1 2(2) 3 4] show ?thesis by simp
qed

text \<open>
  C6 (amended). A block whose \<open>hash\<close> is \<open>null\<close> and that is sealed the way
  \<open>_addBlock\<close> does it (\<open>setPreviousHash\<close>, \<open>setTimeStamp\<close>, \<open>setHeight\<close>,
  \<open>setHash\<close>) validates: \<open>validate\<close> resolves \<open>true\<close> and leaves the block as it is.
  Any block with the same hash that \<open>JSON.stringify\<close> serializes, with \<open>hash\<close>
  cleared, to a text other than that of the sealed block makes \<open>validate\<close> resolve
  \<open>false\<close>, when the digest is injective on the two serializations.
\<close>

theorem C6_seal_then_validate:
  assumes "hash block = None"
    and "setHeight h (setTimeStamp ms (setPreviousHash p block)) = Inr b3"
    and "setHash SHA256 b3 = Inr b"
  shows "validate SHA256 b = (Inr True, b)
    \<and> (\<forall>b'. hash b' = hash b \<and> \<not> isl (JSON_stringify (b'\<lparr>hash := None\<rparr>))
             \<and> JSON_stringify (b'\<lparr>hash := None\<rparr>) \<noteq> JSON_stringify (b\<lparr>hash := None\<rparr>)
             \<and> inj_on SHA256 {s. JSON_stringify (b\<lparr>hash := None\<rparr>) = Inr s
                                   \<or> JSON_stringify (b'\<lparr>hash := None\<rparr>) = Inr s}
           \<longrightarrow> validate SHA256 b' = (Inr False, b'))"
proof -
  from assms(2) have "hash b3 = hash block"
    by (auto simp: setHeight_def setTimeStamp_def setPreviousHash_def split: if_splits)
  with assms(1) have b3: "b3\<lparr>hash := None\<rparr> = b3" by simp
  from assms(3) obtain s where s: "JSON_stringify b3 = Inr s" and b: "b = b3\<lparr>hash := Some (SHA256 s)\<rparr>"
    by (auto simp: setHash_def hashBlock_def split: sum.splits)
  from b b3 have bn: "b\<lparr>hash := None\<rparr> = b3" by simp
  with s have s0: "JSON_stringify (b\<lparr>hash := None\<rparr>) = Inr s" by simp
  from validate_resolves [OF s0, of SHA256] b have 1: "validate SHA256 b = (Inr True, b)" by simp
  have 2: "validate SHA256 b' = (Inr False, b')"
    if h: "hash b' = hash b" and ser: "\<not> isl (JSON_stringify (b'\<lparr>hash := None\<rparr>))"
      and d: "JSON_stringify (b'\<lparr>hash := None\<rparr>) \<noteq> JSON_stringify (b\<lparr>hash := None\<rparr>)"
      and inj: "inj_on SHA256 {s. JSON_stringify (b\<lparr>hash := None\<rparr>) = Inr s
                                   \<or> JSON_stringify (b'\<lparr>hash := None\<rparr>) = Inr s}" for b'
  proof -
    from ser obtain s' where s': "JSON_stringify (b'\<lparr>hash := None\<rparr>) = Inr s'"
      by (cases "JSON_stringify (b'\<lparr>hash := None\<rparr>)") auto
    with d s0 have "s' \<noteq> s" by simp
    with inj s' s0 have "SHA256 s' \<noteq> SHA256 s" by (auto simp: inj_on_def)
    with validate_resolves [OF s', of SHA256] h b show ?thesis by simp
  qed
  from 1 2 show ?thesis by blast
qed

text \<open>
  An instance: a sealed new block, and the same block with another payload.
\<close>

theorem C6_witness:
  "validate plain_digest sample_block = (Inr True, sample_block)
   \<and> validate plain_digest (sample_block\<lparr>body := Str ''00''\<rparr>)
       = (Inr False, sample_block\<lparr>body := Str ''00''\<rparr>)"
proof -
  let ?b3 = "projr (setHeight 1 (setTimeStamp 2000 (setPreviousHash (Some ''cd'')
          (new_Block encode_stub JNull))))"
  have 1: "hash (new_Block encode_stub JNull) = None" by (simp add: new_Block_def)
  have 2: "setHeight 1 (setTimeStamp 2000 (setPreviousHash (Some ''cd'')
          (new_Block encode_stub JNull))) = Inr ?b3"
    by (simp add: setHeight_def)
  have "\<not> isl (setHash plain_digest ?b3)"
    by (simp add: setHash_def hashBlock_def JSON_stringify_def setHeight_def setTimeStamp_def
        setPreviousHash_def new_Block_def)
  then have 3: "setHash plain_digest ?b3 = Inr sample_block"
    unfolding sample_block_def by (cases "setHash plain_digest ?b3") simp_all
  let ?b' = "sample_block\<lparr>body := Str ''00''\<rparr>"
  have quote_differs: "quote ''00'' \<noteq> quote ''7b7d''" by code_simp
  have b: "body sample_block = Str ''7b7d''" "time sample_block = Str ''2''"
    unfolding sample_block_def by code_simp+
  have 4: "hash ?b' = hash sample_block \<and> \<not> isl (JSON_stringify (?b'\<lparr>hash := None\<rparr>))
      \<and> JSON_stringify (?b'\<lparr>hash := None\<rparr>) \<noteq> JSON_stringify (sample_block\<lparr>hash := None\<rparr>)
      \<and> inj_on plain_digest {s. JSON_stringify (sample_block\<lparr>hash := None\<rparr>) = Inr s
                                   \<or> JSON_stringify (?b'\<lparr>hash := None\<rparr>) = Inr s}"
    using quote_differs by (simp add: JSON_stringify_def b inj_on_def plain_digest_def)
  from C6_seal_then_validate [OF 1 2 3] 4 show ?thesis by blast
qed

text \<open>
  The claim as first stated fails: a block whose \<open>hash\<close> is set before it is sealed
  does not validate afterwards; for a sealed block whose payload is replaced by a BigInt,
  \<open>validate\<close> rejects instead of resolving \<open>false\<close>; and for a sealed block whose payload
  \<open>7b7d\<close> is replaced by the \<open>String\<close> object of the same text, a different value,
  \<open>validate\<close> resolves \<open>true\<close>.
\<close>

theorem C6_counterexample:
  "fst (validate plain_digest
          (projr (setHash plain_digest
             (projr (setHeight 1 (setTimeStamp 2000 (setPreviousHash (Some ''cd'')
                ((new_Block encode_stub JNull)\<lparr>hash := Some ''ab''\<rparr>)))))))) = Inr False
   \<and> isl (fst (validate plain_digest (sample_block\<lparr>body := BigInt 3\<rparr>)))
   \<and> body sample_block = Str ''7b7d''
   \<and> fst (validate plain_digest (sample_block\<lparr>body := StringObject ''7b7d''\<rparr>)) = Inr True"
  unfolding sample_block_def by code_simp

text \<open>
  C7. \<open>getStarsByWalletAddress\<close> does not look at the first block of the chain: its
  result is the same whatever that block is, and every record it returns is the \<open>data\<close>
  of the decoded payload of a later block, owned by the address. When the payload of any
  later block fails to decode, the call rejects with a \<open>GetStarByOwnerError\<close>.
\<close>

theorem C7_owner_lookup:
  "getStarsByWalletAddress decode (self\<lparr>chain := g # rest\<rparr>) address
     = getStarsByWalletAddress decode (self\<lparr>chain := g' # rest\<rparr>) address
   \<and> (\<forall>stars. getStarsByWalletAddress decode (self\<lparr>chain := g # rest\<rparr>) address = Inr stars \<longrightarrow>
        (\<forall>d \<in> set stars. \<exists>b \<in> set rest. \<exists>parsed.
            getBData decode b = Inr parsed \<and> member parsed ''data'' = Some d
            \<and> member d ''owner'' = Some (JStr address)))
   \<and> ((\<exists>b \<in> set rest. isl (decode (hex2ascii_text (body b)))) \<longrightarrow>
        (\<exists>m. getStarsByWalletAddress decode (self\<lparr>chain := g # rest\<rparr>) address
               = Inl (GetStarByOwnerError m)))"
proof (intro conjI impI allI)
  show "getStarsByWalletAddress decode (self\<lparr>chain := g # rest\<rparr>) address
     = getStarsByWalletAddress decode (self\<lparr>chain := g' # rest\<rparr>) address"
    by (simp add: getStarsByWalletAddress_def)
next
  fix stars
  assume "getStarsByWalletAddress decode (self\<lparr>chain := g # rest\<rparr>) address = Inr stars"
  then have "stars_loop decode address rest [] = Inr stars"
    by (simp add: getStarsByWalletAddress_def split: sum.splits)
  from stars_loop_origin [OF this]
  show "\<forall>d \<in> set stars. \<exists>b \<in> set rest. \<exists>parsed.
            getBData decode b = Inr parsed \<and> member parsed ''data'' = Some d
            \<and> member d ''owner'' = Some (JStr address)"
    by simp
next
  assume "\<exists>b \<in> set rest. isl (decode (hex2ascii_text (body b)))"
  then obtain b where b: "b \<in> set rest" and d: "isl (decode (hex2ascii_text (body b)))" by blast
  from d have "isl (getBData decode b)"
    by (auto simp: getBData_def split: sum.splits)
  with b have "\<exists>b \<in> set rest. isl (getBData decode b)" by blast
  then have "isl (stars_loop decode address rest [])" by (rule stars_loop_fails)
  then obtain e where "stars_loop decode address rest [] = Inl e"
    by (cases "stars_loop decode address rest []") auto
  then show "\<exists>m. getStarsByWalletAddress decode (self\<lparr>chain := g # rest\<rparr>) address
               = Inl (GetStarByOwnerError m)"
    by (simp add: getStarsByWalletAddress_def new_GetStarByOwnerError_def)
qed

text \<open>
  An instance: the record of block 1 is returned for its owner, and the call rejects once
  the payload of block 1 is one the decoder fails on.
\<close>

theorem C7_witness:
  "(\<exists>b \<in> set (tl (chain sample_chain)). \<exists>parsed.
       getBData decode_stub b = Inr parsed
       \<and> member parsed ''data'' = Some (JObj [(''owner'', JStr ''addr'')])
       \<and> member (JObj [(''owner'', JStr ''addr'')]) ''owner'' = Some (JStr ''addr''))
   \<and> (\<exists>m. getStarsByWalletAddress decode_stub
          (sample_chain\<lparr>chain := hd (chain sample_chain)
                                   # [(chain sample_chain ! 1)\<lparr>body := Str ''00''\<rparr>]\<rparr>) ''addr''
        = Inl (GetStarByOwnerError m))"
proof (intro conjI)
  have "getStarsByWalletAddress decode_stub
          (sample_chain\<lparr>chain := hd (chain sample_chain) # tl (chain sample_chain)\<rparr>) ''addr''
        = Inr [JObj [(''owner'', JStr ''addr'')]]"
    unfolding sample_chain_def by code_simp
  with C7_owner_lookup [where decode = decode_stub and self = sample_chain
      and g = "hd (chain sample_chain)" and g' = "hd (chain sample_chain)"
      and rest = "tl (chain sample_chain)" and address = "''addr''"]
  have "\<forall>d \<in> set [JObj [(''owner'', JStr ''addr'')]]. \<exists>b \<in> set (tl (chain sample_chain)). \<exists>parsed.
       getBData decode_stub b = Inr parsed \<and> member parsed ''data'' = Some d
       \<and> member d ''owner'' = Some (JStr ''addr'')"
    by blast
  then show "\<exists>b \<in> set (tl (chain sample_chain)). \<exists>parsed.
       getBData decode_stub b = Inr parsed
       \<and> member parsed ''data'' = Some (JObj [(''owner'', JStr ''addr'')])
       \<and> member (JObj [(''owner'', JStr ''addr'')]) ''owner'' = Some (JStr ''addr'')"
    by simp
next
  have "\<exists>b \<in> set [(chain sample_chain ! 1)\<lparr>body := Str ''00''\<rparr>].
          isl (decode_stub (hex2ascii_text (body b)))"
    by (simp add: decode_stub_def)
  with C7_owner_lookup [where decode = decode_stub and self = sample_chain
      and g = "hd (chain sample_chain)" and g' = "hd (chain sample_chain)"
      and rest = "[(chain sample_chain ! 1)\<lparr>body := Str ''00''\<rparr>]" and address = "''addr''"]
  show "\<exists>m. getStarsByWalletAddress decode_stub
          (sample_chain\<lparr>chain := hd (chain sample_chain)
                                   # [(chain sample_chain ! 1)\<lparr>body := Str ''00''\<rparr>]\<rparr>) ''addr''
        = Inl (GetStarByOwnerError m)"
    by blast
qed

text \<open>
  C8. When the elapsed time is within the limit and \<open>bitcoinMessage.verify\<close> answers
  \<open>false\<close>, \<open>submitStar\<close> rejects with the error \<open>Validation for your message failed!\<close>
  and the chain is unchanged.
\<close>

theorem C8_bad_signature:
  assumes "parseInt_arg (at_index (split CHR '':'' message) 1) = Some issue_time"
    and "parseInt (getTimeStamp ms) = Some now"
    and "now - issue_time \<le> limitTime self"
    and "verify message address signature = Inr False"
  shows "submitStar SHA256 verify encode ms ms' self address message signature star
       = (Inl (SubmitStarError
                 ''An error occured submitting a new star: Validation for your message failed!''),
          self)"
  using assms
  by (simp add: submitStar_def Let_def js_minus_def js_greater_def new_SubmitStarError_def)

text \<open>
  An instance: a message issued one second before it is submitted.
\<close>

theorem C8_witness:
  "submitStar plain_digest (verify_stub False) encode_stub 2000 2000
     (genesis_chain plain_digest encode_stub 1000) ''addr'' ''addr:1:starRegistry'' ''sig'' JNull
   = (Inl (SubmitStarError
             ''An error occured submitting a new star: Validation for your message failed!''),
      genesis_chain plain_digest encode_stub 1000)"
proof -
  have 1: "parseInt_arg (at_index (split CHR '':'' ''addr:1:starRegistry'') 1) = Some 1"
    by (rule issue_time_examples)
  have 2: "parseInt (getTimeStamp 2000) = Some 2"
    by (simp add: getTimeStamp_examples parseInt_examples)
  have 3: "(2::int) - 1 \<le> limitTime (genesis_chain plain_digest encode_stub 1000)"
    by (simp add: genesis_chain_eq)
  have 4: "verify_stub False ''addr:1:starRegistry'' ''addr'' ''sig'' = Inr False"
    by (simp add: verify_stub_def)
  from C8_bad_signature [where verify = "verify_stub False" and message = "''addr:1:starRegistry''"
      and address = "''addr''" and signature = "''sig''", OF 1 2 3 4]
  show ?thesis .
qed

text \<open>
  C9. The claim is that \<open>validateChain\<close> leaves every stored block and the chain as they
  were, whether it resolves or rejects. It does so when it resolves (lemma
  \<open>validateChain_resolved_unchanged\<close>), and not when it rejects: in \<open>validate\<close> the hash
  is cleared, \<open>_hashBlock\<close> throws, and the \<open>catch\<close> rejects before the assignment that
  puts the hash back. Here the payload of block 1 of a two-block chain has been replaced by
  a BigInt: \<open>validateChain\<close> rejects, and block 1, which had a hash, is left without one.
\<close>

theorem C9_rejected_validation_clears_hash:
  "isl (fst (validateChain plain_digest corrupted_chain))
   \<and> snd (validateChain plain_digest corrupted_chain) \<noteq> corrupted_chain
   \<and> hash (chain corrupted_chain ! 1) \<noteq> None
   \<and> hash (chain (snd (validateChain plain_digest corrupted_chain)) ! 1) = None"
  unfolding corrupted_chain_def sample_chain_def by code_simp

text \<open>
  C10. Sealing is not repeatable: for a block whose \<open>hash\<close> is set, \<open>setHash\<close> hashes a
  serialization that holds that hash, whereas \<open>validate\<close> hashes the serialization with
  \<open>hash\<close> cleared. The two strings differ, so with a digest that is injective on them
  \<open>validate\<close> resolves \<open>false\<close> (and leaves the block as it is).
\<close>

theorem C10_second_seal_invalid:
  assumes "hash b \<noteq> None"
    and "setHash SHA256 b = Inr b2"
    and "inj_on SHA256 {s. JSON_stringify b = Inr s \<or> JSON_stringify (b\<lparr>hash := None\<rparr>) = Inr s}"
  shows "validate SHA256 b2 = (Inr False, b2)"
proof -
  from assms(2) obtain s where s: "JSON_stringify b = Inr s"
    and b2: "b2 = b\<lparr>hash := Some (SHA256 s)\<rparr>"
    by (auto simp: setHash_def hashBlock_def split: sum.splits)
  from JSON_stringify_hash_update [OF s] obtain s0
    where s0: "JSON_stringify (b\<lparr>hash := None\<rparr>) = Inr s0" by blast
  have "s \<noteq> s0"
  proof
    assume "s = s0"
    with s s0 JSON_stringify_fields [of b s "b\<lparr>hash := None\<rparr>"]
    have "hash b = hash (b\<lparr>hash := None\<rparr>)" by simp
    with assms(1) show False by simp
  qed
  with assms(3) s s0 have "SHA256 s \<noteq> SHA256 s0" by (auto simp: inj_on_def)
  moreover have "JSON_stringify (b2\<lparr>hash := None\<rparr>) = Inr s0" using s0 b2 by simp
  ultimately show ?thesis using validate_resolves [of b2 s0 SHA256] b2 by simp
qed

text \<open>
  An instance: a block that already carries the hash \<open>ab\<close>.
\<close>

theorem C10_witness:
  "validate plain_digest
     (projr (setHash plain_digest
        \<lparr>hash = Some ''ab'', height = 1, body = Str ''7b7d'', time = Str ''5'',
         previousBlockHash = Some ''cd''\<rparr>))
   = (Inr False,
      projr (setHash plain_digest
        \<lparr>hash = Some ''ab'', height = 1, body = Str ''7b7d'', time = Str ''5'',
         previousBlockHash = Some ''cd''\<rparr>))"
proof -
  let ?b = "\<lparr>hash = Some ''ab'', height = 1, body = Str ''7b7d'', time = Str ''5'',
         previousBlockHash = Some ''cd''\<rparr>"
  have 1: "hash ?b \<noteq> None" by simp
  have "\<exists>b2. setHash plain_digest ?b = Inr b2"
    by (simp add: setHash_def hashBlock_def JSON_stringify_def)
  then have 2: "setHash plain_digest ?b = Inr (projr (setHash plain_digest ?b))" by auto
  have 3: "inj_on plain_digest
     {s. JSON_stringify ?b = Inr s \<or> JSON_stringify (?b\<lparr>hash := None\<rparr>) = Inr s}"
    by (simp add: inj_on_def plain_digest_def)
  from C10_second_seal_invalid [OF 1 2 3] show ?thesis .
qed

end
